theory Spec2Isabelle
  imports Main "HOL-Library.Sublist"
begin

chapter \<open>The generator of genny: package \<open>parse\<close>\<close>

text \<open>
  A shallow embedding of \<open>parse/parse.go\<close>: every function of the file is a HOL function
  of the same name, and the loops are recursive functions over the lines or tokens they
  run through, with the loop variables as arguments.

  \<^item> The template reader is the string of its bytes: every pass seeks to the start and
    reads the same text.
  \<^item> A function that can fail returns \<open>error + 'a\<close>. The run-time panic of an index out
    of range is a value of \<open>error\<close> like the three error types of the package.
  \<^item> Three functions of other packages are parameters of the functions that call
    them: the scanner of \<open>go/scanner\<close>, the parser of \<open>go/parser\<close> and \<open>imports.Process\<close>. A
    fragment of the scanner is modelled (\<open>goScan\<close>) for the concrete scenarios.
  \<^item> A substitution set, a Go map, is the list of its entries in the order in which a
    \<open>range\<close> statement visits them.
\<close>

section \<open>Go strings and the library functions of package \<open>strings\<close> that parse.go calls\<close>

text \<open>
  A Go string is a sequence of bytes: a \<^typ>\<open>string\<close> (a list of 8-bit characters).
  The functions below follow the Go standard library on byte strings; where the library
  decodes UTF-8 (an empty search string in \<open>strings.Replace\<close>, \<open>strings.Fields\<close>,
  \<open>strings.ToUpper\<close>) the decoding is written out.
\<close>

definition byte :: "char \<Rightarrow> nat" where
  "byte c = of_char c"

definition strings_HasPrefix :: "string \<Rightarrow> string \<Rightarrow> bool" where
  "strings_HasPrefix s p = prefix p s"

definition strings_HasSuffix :: "string \<Rightarrow> string \<Rightarrow> bool" where
  "strings_HasSuffix s p = suffix p s"

text \<open>\<open>strings.Index\<close>: the offset of the first occurrence, \<open>None\<close> for Go's \<open>-1\<close>.\<close>

fun strings_Index :: "string \<Rightarrow> string \<Rightarrow> nat option" where
  "strings_Index [] sub = (if sub = [] then Some 0 else None)"
| "strings_Index (c # cs) sub =
     (if prefix sub (c # cs) then Some 0 else map_option Suc (strings_Index cs sub))"

definition strings_Contains :: "string \<Rightarrow> string \<Rightarrow> bool" where
  "strings_Contains s sub = (strings_Index s sub \<noteq> None)"

text \<open>
  \<open>utf8.DecodeRuneInString\<close>, the width only: the number of bytes of the first rune, 1 for
  an invalid or truncated encoding, 0 for the empty string.
\<close>

definition inRange :: "nat \<Rightarrow> nat \<Rightarrow> char \<Rightarrow> bool" where
  "inRange lo hi c = (lo \<le> byte c \<and> byte c \<le> hi)"

definition runeSize :: "char \<Rightarrow> nat" where
  "runeSize c =
     (if inRange 0xC2 0xDF c then 2
      else if inRange 0xE0 0xEF c then 3
      else if inRange 0xF0 0xF4 c then 4
      else 1)"

definition acceptSecond :: "char \<Rightarrow> char \<Rightarrow> bool" where
  "acceptSecond c0 c1 =
     (if byte c0 = 0xE0 then inRange 0xA0 0xBF c1
      else if byte c0 = 0xED then inRange 0x80 0x9F c1
      else if byte c0 = 0xF0 then inRange 0x90 0xBF c1
      else if byte c0 = 0xF4 then inRange 0x80 0x8F c1
      else inRange 0x80 0xBF c1)"

fun runeWidth :: "string \<Rightarrow> nat" where
  "runeWidth [] = 0"
| "runeWidth (c0 # cs) =
     (let sz = runeSize c0 in
      if sz = 1 then 1
      else if length cs + 1 < sz then 1
      else if \<not> acceptSecond c0 (cs ! 0) then 1
      else if sz \<le> 2 then 2
      else if \<not> inRange 0x80 0xBF (cs ! 1) then 1
      else if sz \<le> 3 then 3
      else if \<not> inRange 0x80 0xBF (cs ! 2) then 1
      else 4)"

text \<open>
  \<open>strings.Replace(s, old, new, n)\<close>: the first \<open>n\<close> non-overlapping occurrences, all of
  them when \<open>n < 0\<close>. An empty \<open>old\<close> matches at the start of the string and after each
  rune. The two lemmas are for the termination of the recursion.
\<close>

lemma runeWidth_pos: "s \<noteq> [] \<Longrightarrow> 0 < runeWidth s"
  by (cases s) (simp_all add: Let_def)

lemma strings_Index_nonempty: "strings_Index s sub = Some j \<Longrightarrow> sub \<noteq> [] \<Longrightarrow> s \<noteq> []"
  by (cases s) simp_all

function replaceRunes :: "string \<Rightarrow> string \<Rightarrow> int \<Rightarrow> string" where
  "replaceRunes s new n =
     (if n = 0 \<or> s = [] then s
      else take (runeWidth s) s @ new @ replaceRunes (drop (runeWidth s) s) new (n - 1))"
  by pat_completeness auto
termination
  by (relation "measure (\<lambda>(s, new, n). length s)") (simp_all add: runeWidth_pos)

function replaceFrom :: "string \<Rightarrow> string \<Rightarrow> string \<Rightarrow> int \<Rightarrow> string" where
  "replaceFrom s old new n =
     (if n = 0 \<or> old = [] then s
      else case strings_Index s old of
             None \<Rightarrow> s
           | Some j \<Rightarrow> take j s @ new @ replaceFrom (drop (j + length old) s) old new (n - 1))"
  by pat_completeness auto
termination
proof (relation "measure (\<lambda>(s, old, new, n). length s)")
  fix s old :: string and new :: string and n :: int and j
  assume "\<not> (n = 0 \<or> old = [])" and "strings_Index s old = Some j"
  then have "old \<noteq> []" and "s \<noteq> []"
    using strings_Index_nonempty by auto
  then show "((drop (j + length old) s, old, new, n - 1), (s, old, new, n))
      \<in> measure (\<lambda>(s, old, new, n). length s)"
    by simp
qed simp

definition strings_Replace :: "string \<Rightarrow> string \<Rightarrow> string \<Rightarrow> int \<Rightarrow> string" where
  "strings_Replace s old new n =
     (if old = new \<or> n = 0 then s
      else if old = [] then new @ replaceRunes s new (n - 1)
      else replaceFrom s old new n)"

text \<open>\<open>strings.TrimRight\<close> and \<open>strings.TrimLeft\<close> for a cutset of ASCII characters.\<close>

definition strings_TrimRight :: "string \<Rightarrow> string \<Rightarrow> string" where
  "strings_TrimRight s cutset = rev (dropWhile (\<lambda>c. c \<in> set cutset) (rev s))"

definition strings_TrimLeft :: "string \<Rightarrow> string \<Rightarrow> string" where
  "strings_TrimLeft s cutset = dropWhile (\<lambda>c. c \<in> set cutset) s"

text \<open>
  \<open>strings.Split(s, sep)\<close> for a separator of one byte (the source splits on a space, the
  line scanner on a newline): one more part than there are separators.
\<close>

fun splitByte :: "char \<Rightarrow> string \<Rightarrow> string list" where
  "splitByte sep [] = [[]]"
| "splitByte sep (c # cs) =
     (if c = sep then [] # splitByte sep cs
      else case splitByte sep cs of
             [] \<Rightarrow> [[c]]
           | p # ps \<Rightarrow> (c # p) # ps)"

fun strings_Join :: "string list \<Rightarrow> string \<Rightarrow> string" where
  "strings_Join [] sep = []"
| "strings_Join [p] sep = p"
| "strings_Join (p # q # ps) sep = p @ sep @ strings_Join (q # ps) sep"

text \<open>
  \<open>strings.Fields\<close>: the maximal runs of non-space runes. \<open>spaceWidth s\<close> is the width of
  the white-space rune \<open>s\<close> starts with (\<open>unicode.IsSpace\<close> on the UTF-8 decoding), 0 when
  there is none.
\<close>

definition spaceWidth :: "string \<Rightarrow> nat" where
  "spaceWidth s =
     (case map byte (take 3 s) of
        [] \<Rightarrow> 0
      | b0 # bs \<Rightarrow>
          if b0 \<in> {0x09, 0x0A, 0x0B, 0x0C, 0x0D, 0x20} then 1
          else if b0 = 0xC2 \<and> (take 1 bs = [0x85] \<or> take 1 bs = [0xA0]) then 2
          else if b0 = 0xE1 \<and> bs = [0x9A, 0x80] then 3
          else if b0 = 0xE2 \<and> length bs = 2 \<and> bs ! 0 = 0x80
                  \<and> ((0x80 \<le> bs ! 1 \<and> bs ! 1 \<le> 0x8A) \<or> bs ! 1 \<in> {0xA8, 0xA9, 0xAF}) then 3
          else if b0 = 0xE2 \<and> bs = [0x81, 0x9F] then 3
          else if b0 = 0xE3 \<and> bs = [0x80, 0x80] then 3
          else 0)"

function fieldsFrom :: "string \<Rightarrow> string \<Rightarrow> string list" where
  "fieldsFrom cur s =
     (if s = [] then (if cur = [] then [] else [cur])
      else if 0 < spaceWidth s
        then (if cur = [] then [] else [cur]) @ fieldsFrom [] (drop (spaceWidth s) s)
      else fieldsFrom (cur @ [hd s]) (tl s))"
  by pat_completeness auto
termination
  by (relation "measure (\<lambda>(cur, s). length s)") simp_all

definition strings_Fields :: "string \<Rightarrow> string list" where
  "strings_Fields s = fieldsFrom [] s"

text \<open>
  \<open>strings.ToUpper(string(b))\<close> for one byte \<open>b\<close>: the conversion \<open>string(b)\<close> is the UTF-8
  encoding of the rune with the value of the byte, so a byte from 0x80 on gives two bytes.
\<close>

definition unicode_ToUpper :: "nat \<Rightarrow> nat" where
  "unicode_ToUpper r =
     (if 0x61 \<le> r \<and> r \<le> 0x7A then r - 32
      else if r = 0xB5 then 0x39C
      else if (0xE0 \<le> r \<and> r \<le> 0xF6) \<or> (0xF8 \<le> r \<and> r \<le> 0xFE) then r - 32
      else if r = 0xFF then 0x178
      else r)"

definition encodeRune :: "nat \<Rightarrow> string" where
  "encodeRune r =
     (if r < 0x80 then [char_of r]
      else [char_of (0xC0 + r div 64), char_of (0x80 + r mod 64)])"

definition upperByte :: "char \<Rightarrow> string" where
  "upperByte b = encodeRune (unicode_ToUpper (byte b))"

text \<open>\<open>unicode.IsUpper\<close> on the rune with the value of a byte (Latin-1).\<close>

definition unicode_IsUpper :: "char \<Rightarrow> bool" where
  "unicode_IsUpper c =
     (inRange 0x41 0x5A c \<or> inRange 0xC0 0xD6 c \<or> inRange 0xD8 0xDE c)"

section \<open>Errors\<close>

text \<open>
  The three error types of the package, and the run-time panic of an index out of range;
  a function that can fail returns \<open>error + 'a\<close>, with \<open>Inl\<close> the failure.
\<close>

datatype error =
    errSource string
  | errMissingSpecificType string
  | errImports string
  | panicIndexOutOfRange

definition bindE :: "error + 'a \<Rightarrow> ('a \<Rightarrow> error + 'b) \<Rightarrow> error + 'b" where
  "bindE r f = (case r of Inl e \<Rightarrow> Inl e | Inr v \<Rightarrow> f v)"

section \<open>The lexical substituter\<close>

definition isExported :: "string \<Rightarrow> bool" where
  "isExported lit = (if length lit = 0 then False else unicode_IsUpper (lit ! 0))"

text \<open>
  \<open>wordify\<close>: \<open>fragment s\<close> is the value of \<open>s\<close> after the three stripping statements; the
  exported form indexes its first byte, which panics on the empty string.
\<close>

definition fragment :: "string \<Rightarrow> string" where
  "fragment s =
     strings_Replace (strings_TrimLeft (strings_TrimRight s ''{}'') ''*&'') ''.'' [] (- 1)"

definition wordify :: "string \<Rightarrow> bool \<Rightarrow> error + string" where
  "wordify s exported =
     (let s' = fragment s in
      if \<not> exported then Inr s'
      else if s' = [] then Inl panicIndexOutOfRange
      else Inr (upperByte (s' ! 0) @ drop 1 s'))"

definition subIntoLiteral :: "string \<Rightarrow> string \<Rightarrow> string \<Rightarrow> error + string" where
  "subIntoLiteral lit typeTemplate specificType =
     (if lit = typeTemplate then Inr specificType
      else if \<not> strings_Contains lit typeTemplate then Inr lit
      else bindE (wordify specificType True) (\<lambda>specificLg.
           bindE (wordify specificType False) (\<lambda>specificSm.
           let result = strings_Replace lit typeTemplate specificLg (- 1) in
           if strings_HasPrefix result specificLg \<and> \<not> isExported lit
           then Inr (strings_Replace result specificLg specificSm 1)
           else Inr result)))"

fun subTypeIntoComment_words ::
  "string list \<Rightarrow> string \<Rightarrow> string \<Rightarrow> string \<Rightarrow> error + string" where
  "subTypeIntoComment_words [] typeTemplate specificType subbed = Inr subbed"
| "subTypeIntoComment_words (w # ws) typeTemplate specificType subbed =
     bindE (subIntoLiteral w typeTemplate specificType) (\<lambda>r.
       subTypeIntoComment_words ws typeTemplate specificType (subbed @ r @ '' ''))"

definition subTypeIntoComment :: "string \<Rightarrow> string \<Rightarrow> string \<Rightarrow> error + string" where
  "subTypeIntoComment line typeTemplate specificType =
     subTypeIntoComment_words (strings_Fields line) typeTemplate specificType []"

text \<open>
  The tokens of \<open>go/token\<close>, as far as \<open>subTypeIntoLine\<close> tells them apart: the
  literal classes, comments, and the operators and keywords with the text that
  \<open>tok.String()\<close> prints for them. The end of the token list stands for \<open>token.EOF\<close>;
  \<open>INT\<close> and \<open>CHAR\<close> carry a prime, the plain names being taken in HOL.
\<close>

datatype token =
    ILLEGAL | COMMENT | IDENT | INT' | FLOAT | IMAG | CHAR' | STRING
  | Operator string
  | Keyword string

fun token_String :: "token \<Rightarrow> string" where
  "token_String ILLEGAL = ''ILLEGAL''"
| "token_String COMMENT = ''COMMENT''"
| "token_String IDENT = ''IDENT''"
| "token_String INT' = ''INT''"
| "token_String FLOAT = ''FLOAT''"
| "token_String IMAG = ''IMAG''"
| "token_String CHAR' = ''CHAR''"
| "token_String STRING = ''STRING''"
| "token_String (Operator s) = s"
| "token_String (Keyword s) = s"

definition token_IsLiteral :: "token \<Rightarrow> bool" where
  "token_IsLiteral tok = (tok \<in> {IDENT, INT', FLOAT, IMAG, CHAR', STRING})"

text \<open>
  \<open>subTypeIntoLine\<close>. The scanner of \<open>go/scanner\<close> is a parameter \<open>scan\<close>: the pairs
  \<open>(tok, lit)\<close> that successive calls of \<open>s.Scan()\<close> return for the line before
  \<open>token.EOF\<close>. The loop appends to \<open>output\<close>.
\<close>

type_synonym scanner = "string \<Rightarrow> (token \<times> string) list"

fun subTypeIntoLine_loop ::
  "(token \<times> string) list \<Rightarrow> string \<Rightarrow> string \<Rightarrow> string \<Rightarrow> error + string" where
  "subTypeIntoLine_loop [] typeTemplate specificType output = Inr output"
| "subTypeIntoLine_loop ((tok, lit) # rest) typeTemplate specificType output =
     (if tok = COMMENT then
        bindE (subTypeIntoComment lit typeTemplate specificType) (\<lambda>subbed.
          subTypeIntoLine_loop rest typeTemplate specificType (output @ subbed @ '' ''))
      else if token_IsLiteral tok then
        bindE (subIntoLiteral lit typeTemplate specificType) (\<lambda>subbed.
          subTypeIntoLine_loop rest typeTemplate specificType (output @ subbed @ '' ''))
      else
        subTypeIntoLine_loop rest typeTemplate specificType (output @ token_String tok @ '' ''))"

definition subTypeIntoLine :: "scanner \<Rightarrow> string \<Rightarrow> string \<Rightarrow> string \<Rightarrow> error + string" where
  "subTypeIntoLine scan line typeTemplate specificType =
     subTypeIntoLine_loop (scan line) typeTemplate specificType []"

subsection \<open>A fragment of the Go scanner\<close>

text \<open>
  \<open>goScan\<close> follows \<open>Scanner.Scan\<close> of \<open>go/scanner\<close> on lines made of ASCII identifiers,
  keywords, operators, blanks, tabs and carriage returns, with the automatic semicolon
  that the scanner inserts at the end of the input after an identifier, one of the
  keywords \<open>break\<close>, \<open>continue\<close>, \<open>fallthrough\<close>, \<open>return\<close>, a closing bracket, \<open>++\<close> or
  \<open>--\<close>. An inserted semicolon has the literal text of a newline, a written one the
  text \<open>;\<close>, a keyword its own text and any other operator the empty text. On any
  other line (numbers, strings, comments, bytes from 0x80 on, other characters) the
  result is \<open>None\<close>: those parts of the scanner are not modelled, and \<open>goScan\<close> is applied
  below to lines of the fragment only.
\<close>

definition goKeywords :: "string list" where
  "goKeywords = [''break'', ''case'', ''chan'', ''const'', ''continue'', ''default'', ''defer'',
     ''else'', ''fallthrough'', ''for'', ''func'', ''go'', ''goto'', ''if'', ''import'',
     ''interface'', ''map'', ''package'', ''range'', ''return'', ''select'', ''struct'',
     ''switch'', ''type'', ''var'']"

text \<open>The operators, each before every operator that is a prefix of it.\<close>

definition operators :: "string list" where
  "operators = [''<<='', ''>>='', ''&^='', ''...'', '':='', ''+='', ''++'', ''-='', ''--'',
     ''*='', ''/='', ''%='', ''^='', ''<-'', ''<='', ''<<'', ''>='', ''>>'', ''=='', ''!='',
     ''&^'', ''&='', ''&&'', ''|='', ''||'', '':'', ''.'', '','', '';'', ''('', '')'', ''['',
     '']'', ''{'', ''}'', ''+'', ''-'', ''*'', ''/'', ''%'', ''^'', ''<'', ''>'', ''='', ''!'',
     ''&'', ''|'']"

definition isBlank :: "char \<Rightarrow> bool" where
  "isBlank c = (c = CHR '' '' \<or> byte c = 0x09 \<or> byte c = 0x0D)"

definition isDecimal :: "char \<Rightarrow> bool" where
  "isDecimal c = inRange 0x30 0x39 c"

definition isLetter :: "char \<Rightarrow> bool" where
  "isLetter c = (inRange 0x61 0x7A c \<or> inRange 0x41 0x5A c \<or> c = CHR ''_'')"

definition token_Lookup :: "string \<Rightarrow> token" where
  "token_Lookup lit = (if lit \<in> set goKeywords then Keyword lit else IDENT)"

function goScanFrom :: "bool \<Rightarrow> string \<Rightarrow> (token \<times> string) list option" where
  "goScanFrom insertSemi s =
     (case dropWhile isBlank s of
        [] \<Rightarrow> Some (if insertSemi then [(Operator '';'', ''\<newline>'')] else [])
      | c # cs \<Rightarrow>
          if isLetter c then
            (let lit = c # takeWhile (\<lambda>x. isLetter x \<or> isDecimal x) cs;
                 tok = token_Lookup lit
             in map_option ((#) (tok, lit))
                  (goScanFrom (tok \<in> {IDENT, Keyword ''break'', Keyword ''continue'',
                                       Keyword ''fallthrough'', Keyword ''return''})
                     (dropWhile (\<lambda>x. isLetter x \<or> isDecimal x) cs)))
          else if isDecimal c \<or> (c = CHR ''.'' \<and> cs \<noteq> [] \<and> isDecimal (hd cs)) then None
          else if prefix ''//'' (c # cs) \<or> prefix ''/*'' (c # cs) then None
          else
            (case find (\<lambda>op. prefix op (c # cs)) operators of
               None \<Rightarrow> None
             | Some op \<Rightarrow>
                 map_option ((#) (Operator op, if op = '';'' then '';'' else []))
                   (goScanFrom (op \<in> {'')'', '']'', ''}'', ''++'', ''--''})
                      (drop (length op - 1) cs))))"
  by pat_completeness auto
termination
proof (relation "measure (\<lambda>(i, s). length s)")
  fix insertSemi :: bool and s :: string and c cs
  assume "dropWhile isBlank s = c # cs"
  then have "length cs < length s"
    by (metis length_dropWhile_le length_Cons less_eq_Suc_le)
  then show "((x, dropWhile (\<lambda>x. isLetter x \<or> isDecimal x) cs), insertSemi, s)
      \<in> measure (\<lambda>(i, s). length s)" for x
    using length_dropWhile_le [of "\<lambda>x. isLetter x \<or> isDecimal x" cs] by simp
  from \<open>length cs < length s\<close>
  show "((x, drop (length op - 1) cs), insertSemi, s) \<in> measure (\<lambda>(i, s). length s)"
    for x and op :: string
    by simp
qed simp

definition goScan :: scanner where
  "goScan line = (case goScanFrom False line of Some toks \<Rightarrow> toks | None \<Rightarrow> [])"

section \<open>The per-set generator\<close>

text \<open>
  The part of the syntax tree of \<open>go/ast\<close> that \<open>generateSpecific\<close> inspects. The parser
  \<open>parser.ParseFile\<close> is a parameter: from the file name and the text, the parser's
  diagnostic or the file.
\<close>

datatype expr = Ident string | SelectorExpr expr string | OtherExpr

datatype spec = TypeSpec string expr | ImportSpec | ValueSpec

datatype decl = GenDecl "spec list" | FuncDecl | BadDecl

record ast_File =
  Decls :: "decl list"

type_synonym parser = "string \<Rightarrow> string \<Rightarrow> string + ast_File"

text \<open>
  A substitution set is a Go map from placeholder names to type expressions. The list
  holds its entries, each key once, in the order in which \<open>range\<close> visits them: Go
  leaves that order open, and it can differ from one run to the next. One order stands
  for all the lines of a pass.
\<close>

type_synonym typeSet = "(string \<times> string) list"

definition header :: string where
  "header = ''\<newline>\<newline>// This file was automatically generated by genny.\<newline>''
     @ ''// Any changes will be lost if this file is regenerated.\<newline>''
     @ ''// see https://github.com/cheekybits/genny\<newline>\<newline>''"

definition packageKeyword :: string where "packageKeyword = ''package''"
definition importKeyword :: string where "importKeyword = ''import''"
definition openBrace :: string where "openBrace = ''(''"
definition closeBrace :: string where "closeBrace = '')''"
definition genericPackage :: string where "genericPackage = ''generic''"
definition genericType :: string where "genericType = ''generic.Type''"
definition genericNumber :: string where "genericNumber = ''generic.Number''"
definition linefeed :: string where "linefeed = [CHR 0x0D, CHR 0x0A]"
definition unwantedLinePrefixes :: "string list" where
  "unwantedLinePrefixes = [''//go:generate genny '']"

definition makeLine :: "string \<Rightarrow> string" where
  "makeLine s = strings_TrimRight s linefeed @ ''\<newline>''"

text \<open>
  \<open>bufio.Scanner\<close> with the default split function \<open>ScanLines\<close>: the text between
  newlines, a last line without newline included when it is not empty, one trailing
  carriage return dropped from each line. The scanner stops, without delivering
  it, at the first line that does not fit its buffer of \<open>MaxScanTokenSize\<close> bytes.
\<close>

definition maxScanTokenSize :: nat where
  "maxScanTokenSize = 65536"

definition dropCR :: "string \<Rightarrow> string" where
  "dropCR l = (if l \<noteq> [] \<and> last l = CHR 0x0D then butlast l else l)"

definition rawLines :: "string \<Rightarrow> string list" where
  "rawLines s = (let ps = splitByte CHR ''\<newline>'' s in if last ps = [] then butlast ps else ps)"

definition scanLines :: "string \<Rightarrow> string list" where
  "scanLines s = map dropCR (takeWhile (\<lambda>l. length l < maxScanTokenSize) (rawLines s))"

text \<open>The check that every placeholder declaration of the file has a key in the set.\<close>

fun checkSpecs :: "spec list \<Rightarrow> typeSet \<Rightarrow> error option" where
  "checkSpecs [] typeSet = None"
| "checkSpecs (TypeSpec name (SelectorExpr (Ident x) sel) # specs) typeSet =
     (if x = genericPackage \<and> map_of typeSet name = None
      then Some (errMissingSpecificType name)
      else checkSpecs specs typeSet)"
| "checkSpecs (_ # specs) typeSet = checkSpecs specs typeSet"

fun checkDecls :: "decl list \<Rightarrow> typeSet \<Rightarrow> error option" where
  "checkDecls [] typeSet = None"
| "checkDecls (GenDecl specs # decls) typeSet =
     (case checkSpecs specs typeSet of
        Some e \<Rightarrow> Some e
      | None \<Rightarrow> checkDecls decls typeSet)"
| "checkDecls (_ # decls) typeSet = checkDecls decls typeSet"

text \<open>The loop over the substitution set for one line.\<close>

fun subTypes :: "scanner \<Rightarrow> typeSet \<Rightarrow> string \<Rightarrow> error + string" where
  "subTypes scan [] line = Inr line"
| "subTypes scan ((t, specificType) # rest) line =
     (if strings_Contains line t
      then bindE (subTypeIntoLine scan line t specificType) (subTypes scan rest)
      else subTypes scan rest line)"

text \<open>The loop over the lines, with the buffer and the pending comment.\<close>

fun generateLines ::
  "scanner \<Rightarrow> typeSet \<Rightarrow> string list \<Rightarrow> string \<Rightarrow> string \<Rightarrow> error + string" where
  "generateLines scan typeSet [] buf comment = Inr buf"
| "generateLines scan typeSet (line # lines) buf comment =
     (if strings_Contains line genericType \<or> strings_Contains line genericNumber
      then generateLines scan typeSet lines buf []
      else bindE (subTypes scan typeSet line) (\<lambda>line'.
        let buf' = (if comment \<noteq> [] then buf @ makeLine comment else buf) in
        if strings_HasPrefix line' ''//''
        then generateLines scan typeSet lines buf' line'
        else generateLines scan typeSet lines (buf' @ makeLine line') []))"

definition generateSpecific ::
  "parser \<Rightarrow> scanner \<Rightarrow> string \<Rightarrow> string \<Rightarrow> typeSet \<Rightarrow> error + string" where
  "generateSpecific parse scan filename src typeSet =
     (case parse filename src of
        Inl err \<Rightarrow> Inl (errSource err)
      | Inr file \<Rightarrow>
          (case checkDecls (Decls file) typeSet of
             Some e \<Rightarrow> Inl e
           | None \<Rightarrow> generateLines scan typeSet (scanLines src) [] []))"

section \<open>Merging, package renaming and \<open>Generics\<close>\<close>

fun generateAll ::
  "parser \<Rightarrow> scanner \<Rightarrow> string \<Rightarrow> string \<Rightarrow> typeSet list \<Rightarrow> string \<Rightarrow> error + string" where
  "generateAll parse scan filename src [] totalOutput = Inr totalOutput"
| "generateAll parse scan filename src (typeSet # typeSets) totalOutput =
     bindE (generateSpecific parse scan filename src typeSet) (\<lambda>parsed.
       generateAll parse scan filename src typeSets (totalOutput @ parsed))"

definition skipline :: "string \<Rightarrow> bool" where
  "skipline l = list_ex (\<lambda>p. strings_HasPrefix l p) unwantedLinePrefixes"

text \<open>
  The clean-up loop of \<open>Generics\<close> over the lines of the concatenation, with the flags
  \<open>packageFound\<close> and \<open>insideImportBlock\<close> and the lines kept so far.
\<close>

fun cleanLoop :: "string list \<Rightarrow> bool \<Rightarrow> bool \<Rightarrow> string list \<Rightarrow> string list" where
  "cleanLoop [] packageFound insideImportBlock cleanOutputLines = cleanOutputLines"
| "cleanLoop (l # ls) packageFound insideImportBlock cleanOutputLines =
     (if insideImportBlock then
        cleanLoop ls packageFound (\<not> strings_HasSuffix l closeBrace) cleanOutputLines
      else if strings_HasPrefix l packageKeyword \<and> packageFound then
        cleanLoop ls packageFound False cleanOutputLines
      else if \<not> strings_HasPrefix l packageKeyword \<and> strings_HasPrefix l importKeyword then
        cleanLoop ls packageFound (strings_HasSuffix l openBrace) cleanOutputLines
      else if skipline l then
        cleanLoop ls (packageFound \<or> strings_HasPrefix l packageKeyword) False cleanOutputLines
      else
        cleanLoop ls (packageFound \<or> strings_HasPrefix l packageKeyword) False
          (cleanOutputLines @ [makeLine l]))"

definition cleanOutput :: "string \<Rightarrow> string" where
  "cleanOutput totalOutput = strings_Join (cleanLoop (scanLines totalOutput) False False []) []"

fun changePackage_loop :: "string list \<Rightarrow> string \<Rightarrow> bool \<Rightarrow> string \<Rightarrow> error + string" where
  "changePackage_loop [] pkgName done out = Inr out"
| "changePackage_loop (s # ss) pkgName done out =
     (if \<not> done \<and> strings_HasPrefix s ''package'' then
        (let parts = splitByte CHR '' '' s in
         if length parts \<le> 1 then Inl panicIndexOutOfRange
         else changePackage_loop ss pkgName True
                (out @ strings_Join (parts[1 := pkgName]) '' '' @ ''\<newline>''))
      else changePackage_loop ss pkgName done (out @ s @ ''\<newline>''))"

definition changePackage :: "string \<Rightarrow> string \<Rightarrow> error + string" where
  "changePackage r pkgName = changePackage_loop (scanLines r) pkgName False []"

text \<open>
  \<open>Generics\<close>. The import normaliser \<open>imports.Process\<close> is a parameter: from the output
  file name and the text, its diagnostic or the formatted text. \<open>preNormalized\<close> is the
  value of \<open>output\<close> in front of that call.
\<close>

type_synonym normalizer = "string \<Rightarrow> string \<Rightarrow> string + string"

definition preNormalized ::
  "parser \<Rightarrow> scanner \<Rightarrow> string \<Rightarrow> string \<Rightarrow> string \<Rightarrow> typeSet list \<Rightarrow> error + string" where
  "preNormalized parse scan filename pkgName src typeSets =
     bindE (generateAll parse scan filename src typeSets header) (\<lambda>totalOutput.
       if pkgName \<noteq> [] then changePackage (cleanOutput totalOutput) pkgName
       else Inr (cleanOutput totalOutput))"

definition Generics ::
  "parser \<Rightarrow> scanner \<Rightarrow> normalizer \<Rightarrow> string \<Rightarrow> string \<Rightarrow> string \<Rightarrow> string \<Rightarrow> typeSet list
     \<Rightarrow> error + string" where
  "Generics parse scan process filename outputFilename pkgName src typeSets =
     bindE (preNormalized parse scan filename pkgName src typeSets) (\<lambda>output.
       case process outputFilename output of
         Inl err \<Rightarrow> Inl (errImports err)
       | Inr out \<Rightarrow> Inr out)"

section \<open>Auxiliary notions for the statements\<close>

text \<open>
  \<open>joinLines\<close> writes lines with a newline after each. A line is clean when a line
  scanner gives it back unchanged from such a text. \<open>trimmed\<close> is \<open>makeLine\<close> without the
  final newline, and \<open>kept\<close> the lines that the clean-up loop of \<open>Generics\<close> appends, before
  \<open>makeLine\<close>.
\<close>

definition joinLines :: "string list \<Rightarrow> string" where
  "joinLines ls = concat (map (\<lambda>l. l @ ''\<newline>'') ls)"

definition cleanLine :: "string \<Rightarrow> bool" where
  "cleanLine l = (CHR ''\<newline>'' \<notin> set l \<and> (l = [] \<or> last l \<noteq> CHR 0x0D)
                  \<and> length l < maxScanTokenSize)"

definition trimmed :: "string \<Rightarrow> string" where
  "trimmed l = strings_TrimRight l linefeed"

fun kept :: "string list \<Rightarrow> bool \<Rightarrow> bool \<Rightarrow> string list" where
  "kept [] packageFound insideImportBlock = []"
| "kept (l # ls) packageFound insideImportBlock =
     (if insideImportBlock then kept ls packageFound (\<not> strings_HasSuffix l closeBrace)
      else if strings_HasPrefix l packageKeyword \<and> packageFound then kept ls packageFound False
      else if \<not> strings_HasPrefix l packageKeyword \<and> strings_HasPrefix l importKeyword then
        kept ls packageFound (strings_HasSuffix l openBrace)
      else if skipline l then
        kept ls (packageFound \<or> strings_HasPrefix l packageKeyword) False
      else l # kept ls (packageFound \<or> strings_HasPrefix l packageKeyword) False)"

text \<open>
  \<open>pendingComment\<close> is the value of the variable \<open>comment\<close> of \<open>generateSpecific\<close> after the
  given lines.
\<close>

fun pendingComment :: "scanner \<Rightarrow> typeSet \<Rightarrow> string list \<Rightarrow> string \<Rightarrow> string" where
  "pendingComment scan typeSet [] comment = comment"
| "pendingComment scan typeSet (line # lines) comment =
     (if strings_Contains line genericType \<or> strings_Contains line genericNumber
      then pendingComment scan typeSet lines []
      else case subTypes scan typeSet line of
             Inl e \<Rightarrow> []
           | Inr line' \<Rightarrow>
               pendingComment scan typeSet lines
                 (if strings_HasPrefix line' ''//'' then line' else []))"




text \<open>
  For the lines of import statements: a text is cut into segments, each a plain line
  (one that does not start with the import keyword), a single-line import statement
  (a line that starts with the keyword and does not end with the opening parenthesis),
  an import block as the clean-up loop recognises it (an opening line that starts with
  the keyword and ends with the opening parenthesis, then lines that do not end with the
  closing parenthesis, then a line that does), or an open block, which has no line that
  ends with the closing parenthesis and so reaches the end of the text: only the last
  segment can be one. \<open>plainLines\<close> are the lines of the plain segments. \<open>segments\<close> cuts any
  list of lines in this way.
\<close>

datatype segment =
    Plain string
  | ImportLine string
  | ImportBlock string "string list" string
  | OpenBlock string "string list"

fun segmentLines :: "segment \<Rightarrow> string list" where
  "segmentLines (Plain l) = [l]"
| "segmentLines (ImportLine l) = [l]"
| "segmentLines (ImportBlock opener body closer) = opener # body @ [closer]"
| "segmentLines (OpenBlock opener body) = opener # body"

fun plainLines :: "segment \<Rightarrow> string list" where
  "plainLines (Plain l) = [l]"
| "plainLines (ImportLine l) = []"
| "plainLines (ImportBlock opener body closer) = []"
| "plainLines (OpenBlock opener body) = []"

fun validSegment :: "segment \<Rightarrow> bool" where
  "validSegment (Plain l) = (\<not> strings_HasPrefix l importKeyword)"
| "validSegment (ImportLine l) =
     (strings_HasPrefix l importKeyword \<and> \<not> strings_HasSuffix l openBrace)"
| "validSegment (ImportBlock opener body closer) =
     (strings_HasPrefix opener importKeyword \<and> strings_HasSuffix opener openBrace
      \<and> list_all (\<lambda>b. \<not> strings_HasSuffix b closeBrace) body
      \<and> strings_HasSuffix closer closeBrace)"
| "validSegment (OpenBlock opener body) =
     (strings_HasPrefix opener importKeyword \<and> strings_HasSuffix opener openBrace
      \<and> list_all (\<lambda>b. \<not> strings_HasSuffix b closeBrace) body)"

fun closedSegment :: "segment \<Rightarrow> bool" where
  "closedSegment (OpenBlock opener body) = False"
| "closedSegment s = True"

definition validSegments :: "segment list \<Rightarrow> bool" where
  "validSegments segs = (list_all validSegment segs \<and> list_all closedSegment (butlast segs))"

function segments :: "string list \<Rightarrow> segment list" where
  "segments [] = []"
| "segments (l # ls) =
     (if strings_HasPrefix l importKeyword then
        if strings_HasSuffix l openBrace then
          (case dropWhile (\<lambda>b. \<not> strings_HasSuffix b closeBrace) ls of
             [] \<Rightarrow> [OpenBlock l ls]
           | c # rest \<Rightarrow>
               ImportBlock l (takeWhile (\<lambda>b. \<not> strings_HasSuffix b closeBrace) ls) c
                 # segments rest)
        else ImportLine l # segments ls
      else Plain l # segments ls)"
  by pat_completeness auto

termination
proof (relation "measure length")
  fix l :: string and ls c rest
  assume "dropWhile (\<lambda>b. \<not> strings_HasSuffix b closeBrace) ls = c # rest"
  then have "length (c # rest) \<le> length ls"
    using length_dropWhile_le [of "\<lambda>b. \<not> strings_HasSuffix b closeBrace" ls] by simp
  then show "(rest, l # ls) \<in> measure length" by simp
qed simp_all

section \<open>Facts about the library functions\<close>

lemma strings_Index_prefix: "prefix sub s \<Longrightarrow> strings_Index s sub = Some 0"
  by (cases s) simp_all

lemma strings_Index_Some:
  "strings_Index s sub = Some j \<Longrightarrow> \<exists>b. s = take j s @ sub @ b"
proof (induction s arbitrary: j)
  case Nil
  then show ?case by (simp split: if_splits)
next
  case (Cons c cs)
  show ?case
  proof (cases "prefix sub (c # cs)")
    case True
    with Cons.prems have "j = 0" by simp
    with True show ?thesis by (auto simp: prefix_def)
  next
    case False
    with Cons.prems obtain k where k: "strings_Index cs sub = Some k" "j = Suc k"
      by auto
    from Cons.IH [OF k(1)] obtain b where "cs = take k cs @ sub @ b" by blast
    with k(2) show ?thesis by auto
  qed
qed

lemma strings_Index_None: "strings_Index s sub = None \<Longrightarrow> s \<noteq> a @ sub @ b"
proof (induction s arbitrary: a)
  case Nil
  then show ?case by (simp split: if_splits)
next
  case (Cons c cs)
  from Cons.prems have np: "\<not> prefix sub (c # cs)" and n: "strings_Index cs sub = None"
    by (auto split: if_splits)
  show ?case
  proof (cases a)
    case Nil
    with np show ?thesis by (auto simp: prefix_def)
  next
    case (Cons x xs)
    with Cons.IH [OF n, of xs] show ?thesis by auto
  qed
qed

lemma strings_Contains_iff: "strings_Contains s sub \<longleftrightarrow> (\<exists>a b. s = a @ sub @ b)"
  unfolding strings_Contains_def
  using strings_Index_Some strings_Index_None by (metis not_None_eq)

lemma strings_Replace_first:
  assumes "prefix old s" and "old \<noteq> []"
  shows "strings_Replace s old new 1 = new @ drop (length old) s"
proof (cases "old = new")
  case True
  with assms show ?thesis by (auto simp: strings_Replace_def prefix_def)
next
  case False
  with assms show ?thesis
    by (simp add: strings_Replace_def strings_Index_prefix)
qed

lemma upperByte_nonempty: "upperByte b \<noteq> []"
  by (simp add: upperByte_def encodeRune_def)

lemma bindE_Inr [simp]: "bindE (Inr v) f = f v"
  by (simp add: bindE_def)

lemma bindE_Inl [simp]: "bindE (Inl e) f = Inl e"
  by (simp add: bindE_def)

lemma splitByte_nonempty: "splitByte c s \<noteq> []"
  by (induction s) (auto split: list.splits)

lemma splitByte_length: "length (splitByte c s) = Suc (length (filter (\<lambda>x. x = c) s))"
  by (induction s) (auto split: list.splits simp: splitByte_nonempty)

lemma splitByte_single: "length (splitByte c s) \<le> 1 \<longleftrightarrow> c \<notin> set s"
  by (auto simp: splitByte_length filter_empty_conv)

lemma splitByte_no_sep: "p \<in> set (splitByte c s) \<Longrightarrow> c \<notin> set p"
  by (induction s arbitrary: p) (auto split: list.splits if_splits)

lemma splitByte_append_sep:
  "c \<notin> set x \<Longrightarrow> splitByte c (x @ c # s) = x # splitByte c s"
  by (induction x) (auto split: list.splits simp: splitByte_nonempty)

lemma splitByte_joinLines:
  "\<forall>l\<in>set ls. CHR ''\<newline>'' \<notin> set l \<Longrightarrow>
     splitByte CHR ''\<newline>'' (joinLines ls) = ls @ [[]]"
  by (induction ls) (simp_all add: joinLines_def splitByte_append_sep)

lemma strings_Join_empty: "strings_Join ls [] = concat ls"
  by (induction ls "[] :: string" rule: strings_Join.induct) simp_all

section \<open>Lines and the clean-up loop\<close>

lemma joinLines_append: "joinLines (xs @ ys) = joinLines xs @ joinLines ys"
  by (simp add: joinLines_def)

lemma joinLines_Cons: "joinLines (x # xs) = x @ ''\<newline>'' @ joinLines xs"
  by (simp add: joinLines_def)

lemma rawLines_joinLines:
  "\<forall>l\<in>set ls. CHR ''\<newline>'' \<notin> set l \<Longrightarrow> rawLines (joinLines ls) = ls"
  by (simp add: rawLines_def splitByte_joinLines)

lemma dropCR_clean: "cleanLine l \<Longrightarrow> dropCR l = l"
  by (auto simp: cleanLine_def dropCR_def)

lemma scanLines_joinLines:
  assumes "\<forall>l\<in>set ls. cleanLine l"
  shows "scanLines (joinLines ls) = ls"
proof -
  from assms have a: "rawLines (joinLines ls) = ls"
    by (simp add: rawLines_joinLines cleanLine_def)
  from assms have "\<forall>l\<in>set ls. length l < maxScanTokenSize"
    by (simp add: cleanLine_def)
  then have b: "takeWhile (\<lambda>l. length l < maxScanTokenSize) ls = ls"
    by (rule takeWhile_eq_all_conv [THEN iffD2])
  from assms have c: "map dropCR ls = ls"
    by (simp add: dropCR_clean map_idI)
  show ?thesis unfolding scanLines_def a b c by (rule refl)
qed

lemma rawLines_no_newline: "l \<in> set (rawLines s) \<Longrightarrow> CHR ''\<newline>'' \<notin> set l"
  by (auto simp: rawLines_def Let_def splitByte_no_sep dest: in_set_butlastD split: if_splits)

lemma dropCR_subset: "set (dropCR l) \<subseteq> set l"
  by (auto simp: dropCR_def dest: in_set_butlastD)

lemma scanLines_line:
  assumes "l \<in> set (scanLines s)"
  shows "CHR ''\<newline>'' \<notin> set l \<and> length l < maxScanTokenSize"
proof -
  from assms obtain r where r: "r \<in> set (takeWhile (\<lambda>l. length l < maxScanTokenSize) (rawLines s))"
    and l: "l = dropCR r"
    by (auto simp: scanLines_def)
  from r have "r \<in> set (rawLines s)" and "length r < maxScanTokenSize"
    by (auto dest: set_takeWhileD)
  with l show ?thesis
    using rawLines_no_newline [of r s] dropCR_subset [of r]
    by (auto simp: dropCR_def)
qed

lemma makeLine_trimmed: "makeLine l = trimmed l @ ''\<newline>''"
  by (simp add: makeLine_def trimmed_def)

lemma trimRight_decomp: "\<exists>r. l = strings_TrimRight l cutset @ r \<and> set r \<subseteq> set cutset"
proof -
  let ?P = "\<lambda>c. c \<in> set cutset"
  have "rev l = takeWhile ?P (rev l) @ dropWhile ?P (rev l)" by simp
  then have "l = rev (dropWhile ?P (rev l)) @ rev (takeWhile ?P (rev l))"
    by (metis rev_append rev_rev_ident)
  moreover have "set (rev (takeWhile ?P (rev l))) \<subseteq> set cutset"
    by (auto dest: set_takeWhileD)
  ultimately show ?thesis unfolding strings_TrimRight_def by blast
qed

lemma trimRight_last:
  "strings_TrimRight l cutset = [] \<or> last (strings_TrimRight l cutset) \<notin> set cutset"
proof (cases "dropWhile (\<lambda>c. c \<in> set cutset) (rev l)")
  case Nil
  then show ?thesis by (simp add: strings_TrimRight_def)
next
  case (Cons x xs)
  then have "x \<notin> set cutset" by (metis hd_dropWhile list.sel(1) list.simps(3))
  with Cons show ?thesis by (simp add: strings_TrimRight_def)
qed

lemma trimmed_prefix:
  assumes "set p \<inter> set linefeed = {}"
  shows "prefix p (trimmed l) \<longleftrightarrow> prefix p l"
proof -
  obtain r where r: "l = trimmed l @ r" "set r \<subseteq> set linefeed"
    using trimRight_decomp [of l linefeed] unfolding trimmed_def by blast
  show ?thesis
  proof
    assume "prefix p (trimmed l)"
    then show "prefix p l" using r(1) by (metis prefix_prefix)
  next
    assume "prefix p l"
    then have "prefix p (trimmed l @ r)" using r(1) by simp
    then have "prefix p (trimmed l) \<or> (\<exists>us. p = trimmed l @ us \<and> prefix us r)"
      by (simp add: prefix_append)
    then show "prefix p (trimmed l)"
    proof (elim disjE exE conjE)
      fix us assume us: "p = trimmed l @ us" "prefix us r"
      show ?thesis
      proof (cases us)
        case Nil
        with us show ?thesis by simp
      next
        case (Cons u us')
        with us have "u \<in> set p" "u \<in> set r" by (auto dest: set_mono_prefix)
        with r(2) assms show ?thesis by blast
      qed
    qed
  qed
qed

lemma trimmed_clean:
  assumes "CHR ''\<newline>'' \<notin> set l" and "length l < maxScanTokenSize"
  shows "cleanLine (trimmed l)"
proof -
  obtain r where r: "l = trimmed l @ r"
    using trimRight_decomp [of l linefeed] unfolding trimmed_def by blast
  then have "set (trimmed l) \<subseteq> set l" and "length (trimmed l) \<le> length l"
    by (metis set_append Un_upper1, metis length_append le_add1)
  moreover have "trimmed l = [] \<or> last (trimmed l) \<noteq> CHR 0x0D"
    using trimRight_last [of l linefeed] by (auto simp: trimmed_def linefeed_def)
  ultimately show ?thesis using assms by (auto simp: cleanLine_def)
qed

lemma keyword_linefeed:
  "set packageKeyword \<inter> set linefeed = {}" "set importKeyword \<inter> set linefeed = {}"
  by (simp_all add: packageKeyword_def importKeyword_def linefeed_def)

lemma HasPrefix_trimmed:
  "strings_HasPrefix (trimmed l) packageKeyword = strings_HasPrefix l packageKeyword"
  "strings_HasPrefix (trimmed l) importKeyword = strings_HasPrefix l importKeyword"
  by (simp_all add: strings_HasPrefix_def trimmed_prefix keyword_linefeed)

lemma makeLine_prefix:
  assumes "set p \<inter> set linefeed = {}"
  shows "prefix p (makeLine l) \<longleftrightarrow> prefix p l"
proof -
  have "CHR ''\<newline>'' \<notin> set p" using assms by (auto simp: linefeed_def)
  then have "prefix p (trimmed l @ ''\<newline>'') \<longleftrightarrow> prefix p (trimmed l)"
    by (auto simp: prefix_append prefix_Cons)
  then show ?thesis by (simp add: makeLine_trimmed trimmed_prefix [OF assms])
qed

lemma cleanLoop_kept:
  "cleanLoop ls pf ib acc = acc @ map makeLine (kept ls pf ib)"
  by (induction ls arbitrary: pf ib acc) simp_all

lemma cleanOutput_kept:
  "cleanOutput tot = joinLines (map trimmed (kept (scanLines tot) False False))"
proof -
  have "makeLine = (\<lambda>l. trimmed l @ ''\<newline>'')"
    by (rule ext) (rule makeLine_trimmed)
  then show ?thesis
    by (simp add: cleanOutput_def cleanLoop_kept strings_Join_empty joinLines_def comp_def)
qed

lemma kept_subset: "set (kept ls pf ib) \<subseteq> set ls"
  by (induction ls arbitrary: pf ib) auto

lemma package_not_import:
  "strings_HasPrefix l packageKeyword \<Longrightarrow> \<not> strings_HasPrefix l importKeyword"
  by (auto simp: strings_HasPrefix_def packageKeyword_def importKeyword_def prefix_def)

lemma kept_no_import:
  "k \<in> set (kept ls pf ib) \<Longrightarrow> \<not> strings_HasPrefix k importKeyword"
  by (induction ls arbitrary: pf ib) (auto split: if_splits simp: package_not_import)

lemma kept_found_no_package:
  "k \<in> set (kept ls True ib) \<Longrightarrow> \<not> strings_HasPrefix k packageKeyword"
  by (induction ls arbitrary: ib) (auto split: if_splits)

lemma kept_package_le1:
  "length (filter (\<lambda>k. strings_HasPrefix k packageKeyword) (kept ls pf ib)) \<le> 1"
proof (induction ls arbitrary: pf ib)
  case Nil
  then show ?case by simp
next
  case (Cons l ls)
  have 0: "filter (\<lambda>k. strings_HasPrefix k packageKeyword) (kept ls True ib') = []" for ib'
    by (auto simp: filter_empty_conv dest: kept_found_no_package)
  show ?case using Cons.IH by (auto simp: 0)
qed

lemma kept_package_first:
  assumes "\<forall>x\<in>set pre. \<not> strings_HasPrefix x packageKeyword \<and> \<not> strings_HasPrefix x importKeyword"
    and "strings_HasPrefix l packageKeyword"
  shows "filter (\<lambda>k. strings_HasPrefix k packageKeyword) (kept (pre @ l # post) False False) = [l]"
  using assms
proof (induction pre)
  case Nil
  have 0: "filter (\<lambda>k. strings_HasPrefix k packageKeyword) (kept post True False) = []"
    by (auto simp: filter_empty_conv dest: kept_found_no_package)
  have "\<not> skipline l" using Nil(2)
    by (auto simp: skipline_def unwantedLinePrefixes_def strings_HasPrefix_def
        packageKeyword_def prefix_def)
  with Nil show ?case by (simp add: 0)
next
  case (Cons x pre)
  then show ?case by simp
qed

lemma scanLines_cleanOutput:
  "scanLines (cleanOutput tot) = map trimmed (kept (scanLines tot) False False)"
proof -
  have "\<forall>l\<in>set (map trimmed (kept (scanLines tot) False False)). cleanLine l"
    using kept_subset [of "scanLines tot" False False] scanLines_line [of _ tot]
    by (auto intro!: trimmed_clean)
  then show ?thesis by (simp add: cleanOutput_kept scanLines_joinLines)
qed

lemma cleanLoop_inside:
  assumes "\<forall>b\<in>set body. \<not> strings_HasSuffix b closeBrace" and "strings_HasSuffix c closeBrace"
  shows "cleanLoop (body @ c # post) pf True acc = cleanLoop post pf False acc"
  using assms by (induction body) simp_all

lemma map_trimmed_makeLine: "map trimmed xs = map butlast (map makeLine xs)"
  by (simp add: makeLine_trimmed)

lemma cleanLoop_plain_step:
  assumes "\<not> strings_HasPrefix l importKeyword"
    and "\<And>pf acc. cleanLoop xs pf False acc = cleanLoop ys pf False acc"
  shows "cleanLoop (l # xs) pf False acc = cleanLoop (l # ys) pf False acc"
  using assms by simp

lemma cleanLoop_open:
  assumes "\<forall>b\<in>set body. \<not> strings_HasSuffix b closeBrace"
  shows "cleanLoop body pf True acc = acc"
  using assms by (induction body) simp_all

lemma validSegments_Cons:
  assumes "validSegments (sg # segs)"
  shows "validSegment sg" and "validSegments segs" and "segs \<noteq> [] \<Longrightarrow> closedSegment sg"
  using assms by (auto simp: validSegments_def split: if_splits)

lemma cleanLoop_segments:
  "validSegments segs \<Longrightarrow>
     cleanLoop (concat (map segmentLines segs)) pf False acc
       = cleanLoop (concat (map plainLines segs)) pf False acc"
proof (induction segs arbitrary: pf acc)
  case Nil
  then show ?case by simp
next
  case (Cons sg segs)
  note v = validSegments_Cons [OF Cons.prems]
  from Cons.IH v(2)
  have ih: "\<And>pf acc. cleanLoop (concat (map segmentLines segs)) pf False acc
       = cleanLoop (concat (map plainLines segs)) pf False acc"
    by simp
  show ?case
  proof (cases sg)
    case (Plain l)
    with v(1) have "\<not> strings_HasPrefix l importKeyword" by simp
    from cleanLoop_plain_step [OF this ih] Plain show ?thesis by simp
  next
    case (ImportLine l)
    with v(1) have "strings_HasPrefix l importKeyword" "\<not> strings_HasSuffix l openBrace"
      by simp_all
    with ImportLine ih show ?thesis using package_not_import [of l] by auto
  next
    case (ImportBlock opener body closer)
    with v(1) have w: "strings_HasPrefix opener importKeyword"
      "strings_HasSuffix opener openBrace"
      "\<forall>b\<in>set body. \<not> strings_HasSuffix b closeBrace" "strings_HasSuffix closer closeBrace"
      by (simp_all add: list_all_iff)
    have "cleanLoop (opener # body @ closer # concat (map segmentLines segs)) pf False acc
        = cleanLoop (body @ closer # concat (map segmentLines segs)) pf True acc"
      using w(1,2) package_not_import [of opener] by auto
    also have "\<dots> = cleanLoop (concat (map segmentLines segs)) pf False acc"
      using w(3,4) by (rule cleanLoop_inside)
    finally show ?thesis using ImportBlock ih by simp
  next
    case (OpenBlock opener body)
    with v(3) have e: "segs = []" by auto
    from OpenBlock v(1) have w: "strings_HasPrefix opener importKeyword"
      "strings_HasSuffix opener openBrace"
      "\<forall>b\<in>set body. \<not> strings_HasSuffix b closeBrace"
      by (simp_all add: list_all_iff)
    have "cleanLoop (opener # body) pf False acc = cleanLoop body pf True acc"
      using w(1,2) package_not_import [of opener] by auto
    also have "\<dots> = acc"
      using w(3) by (rule cleanLoop_open)
    finally show ?thesis using OpenBlock e by simp
  qed
qed

lemma segments_lines: "concat (map segmentLines (segments ls)) = ls"
proof (induction ls rule: segments.induct)
  case 1
  then show ?case by simp
next
  case (2 l ls)
  let ?P = "\<lambda>b. \<not> strings_HasSuffix b closeBrace"
  show ?case
  proof (cases "strings_HasPrefix l importKeyword \<and> strings_HasSuffix l openBrace")
    case False
    with 2 show ?thesis by auto
  next
    case True
    show ?thesis
    proof (cases "dropWhile ?P ls")
      case Nil
      have "segments (l # ls) = [OpenBlock l ls]"
        using True by (simp add: Nil)
      then show ?thesis by simp
    next
      case (Cons c rest)
      have s: "segments (l # ls) = ImportBlock l (takeWhile ?P ls) c # segments rest"
        using True by (simp add: Cons)
      from 2(1) True Cons have "concat (map segmentLines (segments rest)) = rest" by simp
      moreover have "takeWhile ?P ls @ c # rest = ls"
        using takeWhile_dropWhile_id [of ?P ls] by (simp add: Cons)
      ultimately show ?thesis unfolding s by simp
    qed
  qed
qed

lemma segments_valid: "validSegments (segments ls)"
proof (induction ls rule: segments.induct)
  case 1
  then show ?case by (simp add: validSegments_def)
next
  case (2 l ls)
  let ?P = "\<lambda>b. \<not> strings_HasSuffix b closeBrace"
  have step: "validSegments (sg # segs)"
    if "validSegment sg" "closedSegment sg" "validSegments segs" for sg segs
    using that by (simp add: validSegments_def)
  show ?case
  proof (cases "strings_HasPrefix l importKeyword")
    case False
    with 2(3) show ?thesis by (simp add: step)
  next
    case i: True
    show ?thesis
    proof (cases "strings_HasSuffix l openBrace")
      case False
      with i 2(2) show ?thesis by (simp add: step)
    next
      case o: True
      show ?thesis
      proof (cases "dropWhile ?P ls")
        case Nil
        have s: "segments (l # ls) = [OpenBlock l ls]"
          using i o by (simp add: Nil)
        from Nil have "\<forall>b\<in>set ls. ?P b" by simp
        with i o show ?thesis unfolding s by (simp add: validSegments_def list_all_iff)
      next
        case (Cons c rest)
        have s: "segments (l # ls) = ImportBlock l (takeWhile ?P ls) c # segments rest"
          using i o by (simp add: Cons)
        from 2(1) i o Cons have r: "validSegments (segments rest)" by simp
        have "dropWhile ?P ls \<noteq> []" by (simp add: Cons)
        from hd_dropWhile [OF this] have "\<not> ?P c" by (simp add: Cons)
        moreover have "\<forall>b\<in>set (takeWhile ?P ls). ?P b" by (auto dest: set_takeWhileD)
        ultimately have "validSegment (ImportBlock l (takeWhile ?P ls) c)"
          using i o by (simp add: list_all_iff)
        with r show ?thesis unfolding s by (simp add: step)
      qed
    qed
  qed
qed

section \<open>The package renamer\<close>

lemma changePackage_loop_done:
  "changePackage_loop ss pkgName True out = Inr (out @ joinLines ss)"
  by (induction ss arbitrary: out) (simp_all add: joinLines_def)

lemma changePackage_loop_first:
  assumes "\<forall>x\<in>set pre. \<not> strings_HasPrefix x ''package''"
    and "strings_HasPrefix l ''package''"
  shows "changePackage_loop (pre @ l # post) pkgName False out =
     (if CHR '' '' \<in> set l
      then Inr (out @ joinLines (pre @
             [strings_Join ((splitByte CHR '' '' l)[1 := pkgName]) '' ''] @ post))
      else Inl panicIndexOutOfRange)"
  using assms
proof (induction pre arbitrary: out)
  case Nil
  then show ?case
    using splitByte_single [of "CHR '' ''" l]
    by (auto simp: Let_def changePackage_loop_done joinLines_Cons)
next
  case (Cons x pre)
  then show ?case by (simp add: joinLines_Cons)
qed

lemma changePackage_loop_none:
  "\<forall>x\<in>set ss. \<not> strings_HasPrefix x ''package'' \<Longrightarrow>
     changePackage_loop ss pkgName False out = Inr (out @ joinLines ss)"
  by (induction ss arbitrary: out) (simp_all add: joinLines_def)

lemma changePackage_loop_fails:
  "changePackage_loop ss pkgName False out = Inl e \<Longrightarrow>
     \<exists>pre l post. ss = pre @ l # post \<and> (\<forall>x\<in>set pre. \<not> strings_HasPrefix x ''package'')
        \<and> strings_HasPrefix l ''package'' \<and> CHR '' '' \<notin> set l"
proof (induction ss arbitrary: out)
  case Nil
  then show ?case by simp
next
  case (Cons s ss)
  show ?case
  proof (cases "strings_HasPrefix s ''package''")
    case True
    with Cons.prems have "CHR '' '' \<notin> set s"
      using changePackage_loop_first [of "[]" s ss pkgName out] by (auto split: if_splits)
    with True have "s # ss = [] @ s # ss \<and> (\<forall>x\<in>set []. \<not> strings_HasPrefix x ''package'')
        \<and> strings_HasPrefix s ''package'' \<and> CHR '' '' \<notin> set s"
      by simp
    then show ?thesis by blast
  next
    case False
    with Cons.prems have "changePackage_loop ss pkgName False (out @ s @ ''\<newline>'') = Inl e"
      by simp
    from Cons.IH [OF this] obtain pre l post where
      "ss = pre @ l # post" "\<forall>x\<in>set pre. \<not> strings_HasPrefix x ''package''"
      "strings_HasPrefix l ''package''" "CHR '' '' \<notin> set l"
      by blast
    with False have "s # ss = (s # pre) @ l # post
        \<and> (\<forall>x\<in>set (s # pre). \<not> strings_HasPrefix x ''package'')
        \<and> strings_HasPrefix l ''package'' \<and> CHR '' '' \<notin> set l"
      by simp
    then show ?thesis by blast
  qed
qed

section \<open>The substituter: where it returns and where it panics\<close>

lemma wordify_exported:
  "wordify s True = (if fragment s = [] then Inl panicIndexOutOfRange
                     else Inr (upperByte (hd (fragment s)) @ tl (fragment s)))"
  by (simp add: wordify_def Let_def hd_conv_nth drop_Suc)

lemma wordify_unexported: "wordify s False = Inr (fragment s)"
  by (simp add: wordify_def)

lemma subIntoLiteral_error:
  "subIntoLiteral lit P R = Inl e \<Longrightarrow> e = panicIndexOutOfRange"
  by (auto simp: subIntoLiteral_def wordify_exported wordify_unexported bindE_def Let_def
      split: if_splits)

lemma subIntoLiteral_total:
  "fragment R \<noteq> [] \<Longrightarrow> \<exists>r. subIntoLiteral lit P R = Inr r"
  by (simp add: subIntoLiteral_def wordify_exported wordify_unexported Let_def)

lemma subIntoLiteral_panics:
  "(subIntoLiteral lit P R = Inl panicIndexOutOfRange) =
     (lit \<noteq> P \<and> strings_Contains lit P \<and> fragment R = [])"
  by (simp add: subIntoLiteral_def wordify_exported wordify_unexported Let_def)

lemma comment_words_error:
  "subTypeIntoComment_words ws P R subbed = Inl e \<Longrightarrow> e = panicIndexOutOfRange"
proof (induction ws arbitrary: subbed)
  case Nil
  then show ?case by simp
next
  case (Cons w ws)
  then show ?case
    by (cases "subIntoLiteral w P R") (auto dest: subIntoLiteral_error)
qed

lemma comment_words_total:
  "fragment R \<noteq> [] \<Longrightarrow> \<exists>r. subTypeIntoComment_words ws P R subbed = Inr r"
proof (induction ws arbitrary: subbed)
  case Nil
  then show ?case by simp
next
  case (Cons w ws)
  from subIntoLiteral_total [OF Cons.prems] obtain r where "subIntoLiteral w P R = Inr r"
    by blast
  with Cons show ?case by simp
qed

lemma line_loop_error:
  "subTypeIntoLine_loop toks P R out = Inl e \<Longrightarrow> e = panicIndexOutOfRange"
proof (induction toks arbitrary: out)
  case Nil
  then show ?case by simp
next
  case (Cons t toks)
  obtain tok lit where t: "t = (tok, lit)" by (cases t)
  show ?case
  proof (cases "tok = COMMENT")
    case True
    with Cons t show ?thesis
      by (cases "subTypeIntoComment lit P R")
        (auto simp: subTypeIntoComment_def dest: comment_words_error)
  next
    case False
    with Cons t show ?thesis
      by (cases "subIntoLiteral lit P R") (auto dest: subIntoLiteral_error split: if_splits)
  qed
qed

lemma line_loop_total:
  "fragment R \<noteq> [] \<Longrightarrow> \<exists>r. subTypeIntoLine_loop toks P R out = Inr r"
proof (induction toks arbitrary: out)
  case Nil
  then show ?case by simp
next
  case (Cons t toks)
  obtain tok lit where t: "t = (tok, lit)" by (cases t)
  from subIntoLiteral_total [OF Cons.prems] obtain r where r: "subIntoLiteral lit P R = Inr r"
    by blast
  from comment_words_total [OF Cons.prems] obtain r' where
    r': "subTypeIntoComment lit P R = Inr r'"
    unfolding subTypeIntoComment_def by blast
  from Cons t r r' show ?case by simp
qed

lemma line_loop_panics:
  assumes "(tok, lit) \<in> set toks" and "token_IsLiteral tok"
    and "lit \<noteq> P" and "strings_Contains lit P" and "fragment R = []"
  shows "subTypeIntoLine_loop toks P R out = Inl panicIndexOutOfRange"
  using assms(1)
proof (induction toks arbitrary: out)
  case Nil
  then show ?case by simp
next
  case (Cons t toks)
  obtain tok' lit' where t: "t = (tok', lit')" by (cases t)
  have lit: "subIntoLiteral lit P R = Inl panicIndexOutOfRange"
    using assms by (simp add: subIntoLiteral_panics)
  have nc: "tok \<noteq> COMMENT" using assms(2) by (auto simp: token_IsLiteral_def)
  show ?case
  proof (cases "t = (tok, lit)")
    case True
    with lit nc assms(2) show ?thesis by simp
  next
    case False
    with Cons.prems have "(tok, lit) \<in> set toks" by simp
    then have ih: "subTypeIntoLine_loop toks P R out' = Inl panicIndexOutOfRange" for out'
      by (rule Cons.IH)
    show ?thesis
    proof (cases "subTypeIntoLine_loop (t # toks) P R out")
      case (Inl e)
      then show ?thesis using line_loop_error by blast
    next
      case (Inr v)
      then show ?thesis using t ih
        by (auto simp: bindE_def split: if_splits sum.splits)
    qed
  qed
qed

lemma subTypes_error: "subTypes scan ts line = Inl e \<Longrightarrow> e = panicIndexOutOfRange"
proof (induction ts arbitrary: line)
  case Nil
  then show ?case by simp
next
  case (Cons kv ts)
  obtain t v where kv: "kv = (t, v)" by (cases kv)
  from Cons kv show ?case
    by (cases "subTypeIntoLine scan line t v")
      (auto simp: subTypeIntoLine_def dest: line_loop_error split: if_splits)
qed

lemma subTypes_total:
  "\<forall>(k, v)\<in>set ts. fragment v \<noteq> [] \<Longrightarrow> \<exists>r. subTypes scan ts line = Inr r"
proof (induction ts arbitrary: line)
  case Nil
  then show ?case by simp
next
  case (Cons kv ts)
  obtain t v where kv: "kv = (t, v)" by (cases kv)
  with Cons.prems have "fragment v \<noteq> []" by simp
  from line_loop_total [OF this] obtain r where "subTypeIntoLine scan line t v = Inr r"
    unfolding subTypeIntoLine_def by blast
  with Cons kv show ?case by simp
qed

lemma generateLines_error:
  "generateLines scan ts lines buf c = Inl e \<Longrightarrow> e = panicIndexOutOfRange"
proof (induction lines arbitrary: buf c)
  case Nil
  then show ?case by simp
next
  case (Cons l lines)
  then show ?case
    by (cases "subTypes scan ts l")
      (auto simp: Let_def dest: subTypes_error split: if_splits)
qed

lemma generateLines_total:
  assumes "\<forall>(k, v)\<in>set ts. fragment v \<noteq> []"
  shows "\<exists>out. generateLines scan ts lines buf c = Inr out"
proof (induction lines arbitrary: buf c)
  case Nil
  then show ?case by simp
next
  case (Cons l lines)
  from subTypes_total [OF assms] obtain r where "subTypes scan ts l = Inr r" by blast
  with Cons show ?case by (simp add: Let_def)
qed

lemma generateLines_panics:
  assumes "line \<in> set lines"
    and "\<not> strings_Contains line genericType" and "\<not> strings_Contains line genericNumber"
    and "subTypes scan ts line = Inl panicIndexOutOfRange"
  shows "generateLines scan ts lines buf c = Inl panicIndexOutOfRange"
  using assms(1)
proof (induction lines arbitrary: buf c)
  case Nil
  then show ?case by simp
next
  case (Cons l lines)
  show ?case
  proof (cases "l = line")
    case True
    with assms show ?thesis by simp
  next
    case False
    with Cons.prems have "line \<in> set lines" by simp
    then have ih: "generateLines scan ts lines buf' c' = Inl panicIndexOutOfRange" for buf' c'
      by (rule Cons.IH)
    show ?thesis
    proof (cases "generateLines scan ts (l # lines) buf c")
      case (Inl e)
      then show ?thesis using generateLines_error by blast
    next
      case (Inr v)
      then show ?thesis using ih
        by (auto simp: bindE_def Let_def split: if_splits sum.splits)
    qed
  qed
qed

lemma generateSpecific_panics:
  assumes "fragment R = []" and "parse filename src = Inr tree"
    and "checkDecls (Decls tree) [(P, R)] = None"
    and "line \<in> set (scanLines src)"
    and "\<not> strings_Contains line genericType" and "\<not> strings_Contains line genericNumber"
    and "strings_Contains line P"
    and "(tok, w) \<in> set (scan line)" and "token_IsLiteral tok"
    and "w \<noteq> P" and "strings_Contains w P"
  shows "generateSpecific parse scan filename src [(P, R)] = Inl panicIndexOutOfRange"
proof -
  have "subTypeIntoLine scan line P R = Inl panicIndexOutOfRange"
    unfolding subTypeIntoLine_def using assms(8-11) assms(1) by (rule line_loop_panics)
  with assms(7) have "subTypes scan [(P, R)] line = Inl panicIndexOutOfRange" by simp
  with assms(4-6) have "generateLines scan [(P, R)] (scanLines src) [] [] = Inl panicIndexOutOfRange"
    by (rule generateLines_panics)
  with assms(2,3) show ?thesis by (simp add: generateSpecific_def)
qed

lemma fragment_examples: "fragment [] = [] \<and> fragment ''*'' = [] \<and> fragment ''{}'' = []"
  by code_simp

lemma fragment_int: "fragment ''int'' = ''int''"
  by code_simp

lemma generateLines_buf:
  "generateLines scan ts ls buf c =
     (case generateLines scan ts ls [] c of Inl e \<Rightarrow> Inl e | Inr out \<Rightarrow> Inr (buf @ out))"
proof (induction ls arbitrary: buf c)
  case Nil
  then show ?case by simp
next
  case (Cons l ls)
  show ?case
  proof (cases "subTypes scan ts l")
    case (Inl e)
    then show ?thesis by (simp add: Cons.IH [of buf "[]"])
  next
    case (Inr l')
    show ?thesis
      using Inr
      by (simp add: Let_def Cons.IH [of "buf @ _"] Cons.IH [of buf] Cons.IH [of "makeLine _"]
          Cons.IH [of "makeLine _ @ makeLine _"]
          split: sum.splits)
  qed
qed

lemma generateLines_append:
  "generateLines scan ts (xs @ ys) buf c =
     bindE (generateLines scan ts xs buf c)
       (\<lambda>b. generateLines scan ts ys b (pendingComment scan ts xs c))"
proof (induction xs arbitrary: buf c)
  case Nil
  then show ?case by simp
next
  case (Cons l xs)
  show ?case
  proof (cases "subTypes scan ts l")
    case (Inl e)
    then show ?thesis by (simp add: Cons.IH)
  next
    case (Inr l')
    then show ?thesis by (simp add: Let_def Cons.IH)
  qed
qed

lemma generateLines_step:
  assumes "\<not> strings_Contains line genericType" and "\<not> strings_Contains line genericNumber"
    and "subTypes scan ts line = Inr line'" and "\<not> strings_HasPrefix line' ''//''"
  shows "generateLines scan ts (line # lines) buf c =
     generateLines scan ts lines
       ((if c \<noteq> [] then buf @ makeLine c else buf) @ makeLine line') []"
  using assms by (simp add: Let_def)

section \<open>The coverage check\<close>

lemma checkSpecs_missing:
  "TypeSpec name (SelectorExpr (Ident ''generic'') sel) \<in> set specs \<Longrightarrow>
     map_of ts name = None \<Longrightarrow> checkSpecs specs ts \<noteq> None"
  by (induction specs ts rule: checkSpecs.induct) (auto simp: genericPackage_def)

lemma checkSpecs_Some:
  "checkSpecs specs ts = Some e \<Longrightarrow>
     \<exists>g sel. e = errMissingSpecificType g
        \<and> TypeSpec g (SelectorExpr (Ident ''generic'') sel) \<in> set specs \<and> map_of ts g = None"
proof (induction specs ts rule: checkSpecs.induct)
  case (2 n x sel' specs typeSet)
  then show ?case by (auto simp: genericPackage_def split: if_splits)
qed auto

lemma checkDecls_missing:
  "GenDecl specs \<in> set decls \<Longrightarrow>
     TypeSpec name (SelectorExpr (Ident ''generic'') sel) \<in> set specs \<Longrightarrow>
     map_of ts name = None \<Longrightarrow> checkDecls decls ts \<noteq> None"
proof (induction decls ts rule: checkDecls.induct)
  case (2 specs' decls typeSet)
  then show ?case
    using checkSpecs_missing [of name sel specs' typeSet] by (auto split: option.splits)
qed auto

lemma checkDecls_Some:
  "checkDecls decls ts = Some e \<Longrightarrow>
     \<exists>g specs sel. e = errMissingSpecificType g \<and> GenDecl specs \<in> set decls
        \<and> TypeSpec g (SelectorExpr (Ident ''generic'') sel) \<in> set specs \<and> map_of ts g = None"
proof (induction decls ts rule: checkDecls.induct)
  case (2 specs' decls typeSet)
  show ?case
  proof (cases "checkSpecs specs' typeSet")
    case None
    with 2 show ?thesis by auto
  next
    case (Some e')
    with 2 have "e' = e" by simp
    with Some checkSpecs_Some [of specs' typeSet e] show ?thesis by auto
  qed
qed auto

lemma generateAll_missing:
  assumes "parse filename src = Inr tree"
    and "\<forall>ts\<in>set typeSets. \<forall>(k, v)\<in>set ts. fragment v \<noteq> []"
    and "typeSet \<in> set typeSets" and "checkDecls (Decls tree) typeSet \<noteq> None"
  shows "\<exists>pre ts post e. typeSets = pre @ ts # post
     \<and> (\<forall>t\<in>set pre. checkDecls (Decls tree) t = None)
     \<and> checkDecls (Decls tree) ts = Some e
     \<and> generateAll parse scan filename src typeSets totalOutput = Inl e"
  using assms(2,3)
proof (induction typeSets arbitrary: totalOutput)
  case Nil
  then show ?case by simp
next
  case (Cons t typeSets)
  show ?case
  proof (cases "checkDecls (Decls tree) t")
    case (Some e)
    with assms(1) have "generateAll parse scan filename src (t # typeSets) totalOutput = Inl e"
      by (simp add: generateSpecific_def)
    with Some have "t # typeSets = [] @ t # typeSets
       \<and> (\<forall>t\<in>set []. checkDecls (Decls tree) t = None)
       \<and> checkDecls (Decls tree) t = Some e
       \<and> generateAll parse scan filename src (t # typeSets) totalOutput = Inl e"
      by simp
    then show ?thesis by blast
  next
    case None
    with Cons.prems assms(4) have mem: "typeSet \<in> set typeSets" by auto
    from Cons.prems have tot: "\<forall>ts\<in>set typeSets. \<forall>(k, v)\<in>set ts. fragment v \<noteq> []"
      and "\<forall>(k, v)\<in>set t. fragment v \<noteq> []"
      by auto
    from generateLines_total [OF this(2)] obtain out where
      "generateLines scan t (scanLines src) [] [] = Inr out"
      by blast
    with None assms(1) have g: "generateSpecific parse scan filename src t = Inr out"
      by (simp add: generateSpecific_def)
    from Cons.IH [OF tot mem, of "totalOutput @ out"] obtain pre ts post e where
      "typeSets = pre @ ts # post" "\<forall>t\<in>set pre. checkDecls (Decls tree) t = None"
      "checkDecls (Decls tree) ts = Some e"
      "generateAll parse scan filename src typeSets (totalOutput @ out) = Inl e"
      by blast
    with None g have "t # typeSets = (t # pre) @ ts # post
       \<and> (\<forall>t\<in>set (t # pre). checkDecls (Decls tree) t = None)
       \<and> checkDecls (Decls tree) ts = Some e
       \<and> generateAll parse scan filename src (t # typeSets) totalOutput = Inl e"
      by simp
    then show ?thesis by blast
  qed
qed

section \<open>The iteration order of the substitution sets\<close>










section \<open>Evaluation on example templates\<close>

text \<open>
  The witnesses and counterexamples below run the model on small templates. For a
  template the parser is a constant function that returns the declarations of that
  template, the scanner is \<open>goScan\<close>, and the import normaliser, where one is needed,
  returns its input. The lemmas of this section evaluate the steps.
\<close>

lemma generateAll_plain:
  "generateAll (\<lambda>f s. Inr \<lparr>Decls = []\<rparr>) goScan ''t.go'' ''package p\<newline>'' [[]] header
     = Inr (header @ ''package p\<newline>'')"
  by (simp add: generateSpecific_def scanLines_def rawLines_def dropCR_def maxScanTokenSize_def
     strings_Contains_def genericType_def genericNumber_def strings_HasPrefix_def makeLine_def
     strings_TrimRight_def linefeed_def)

lemma scanLines_plain:
  "scanLines (header @ ''package p\<newline>'') =
     [[], [], ''// This file was automatically generated by genny.'',
      ''// Any changes will be lost if this file is regenerated.'',
      ''// see https://github.com/cheekybits/genny'', [], ''package p'']"
  by (simp add: header_def scanLines_def rawLines_def dropCR_def maxScanTokenSize_def)

lemma cleanOutput_plain: "cleanOutput (header @ ''package p\<newline>'') = header @ ''package p\<newline>''"
proof -
  have "cleanLoop [[], [], ''// This file was automatically generated by genny.'',
      ''// Any changes will be lost if this file is regenerated.'',
      ''// see https://github.com/cheekybits/genny'', [], ''package p''] False False [] =
     [''\<newline>'', ''\<newline>'', ''// This file was automatically generated by genny.\<newline>'',
      ''// Any changes will be lost if this file is regenerated.\<newline>'',
      ''// see https://github.com/cheekybits/genny\<newline>'', ''\<newline>'', ''package p\<newline>'']"
    by code_simp
  then show ?thesis
    unfolding cleanOutput_def scanLines_plain by (simp add: header_def)
qed

lemma generateAll_indented:
  "generateAll (\<lambda>f s. Inr \<lparr>Decls = [GenDecl [ImportSpec]]\<rparr>) goScan ''t.go''
     '' package p\<newline>import ( // std\<newline>  `fmt`\<newline>)\<newline>'' [[]] header
     = Inr (header @ '' package p\<newline>import ( // std\<newline>  `fmt`\<newline>)\<newline>'')"
  by (simp add: generateSpecific_def scanLines_def rawLines_def dropCR_def maxScanTokenSize_def
     strings_Contains_def genericType_def genericNumber_def strings_HasPrefix_def makeLine_def
     strings_TrimRight_def linefeed_def)

lemma scanLines_indented:
  "scanLines (header @ '' package p\<newline>import ( // std\<newline>  `fmt`\<newline>)\<newline>'') =
     [[], [], ''// This file was automatically generated by genny.'',
      ''// Any changes will be lost if this file is regenerated.'',
      ''// see https://github.com/cheekybits/genny'', [], '' package p'', ''import ( // std'',
      ''  `fmt`'', '')'']"
  by (simp add: header_def scanLines_def rawLines_def dropCR_def maxScanTokenSize_def)

lemma cleanLoop_indented:
  "cleanLoop [[], [], ''// This file was automatically generated by genny.'',
      ''// Any changes will be lost if this file is regenerated.'',
      ''// see https://github.com/cheekybits/genny'', [], '' package p'', ''import ( // std'',
      ''  `fmt`'', '')''] False False [] =
     [''\<newline>'', ''\<newline>'', ''// This file was automatically generated by genny.\<newline>'',
      ''// Any changes will be lost if this file is regenerated.\<newline>'',
      ''// see https://github.com/cheekybits/genny\<newline>'', ''\<newline>'', '' package p\<newline>'',
      ''  `fmt`\<newline>'', '')\<newline>'']"
  by code_simp

lemma cleanOutput_indented:
  "cleanOutput (header @ '' package p\<newline>import ( // std\<newline>  `fmt`\<newline>)\<newline>'') =
     header @ '' package p\<newline>  `fmt`\<newline>)\<newline>''"
  unfolding cleanOutput_def scanLines_indented cleanLoop_indented
  by (simp add: header_def)

lemma generateAll_twoSpaces:
  "generateAll (\<lambda>f s. Inr \<lparr>Decls = []\<rparr>) goScan ''t.go'' ''package  p\<newline>'' [[]] header
     = Inr (header @ ''package  p\<newline>'')"
  by (simp add: generateSpecific_def scanLines_def rawLines_def dropCR_def maxScanTokenSize_def
     strings_Contains_def genericType_def genericNumber_def strings_HasPrefix_def makeLine_def
     strings_TrimRight_def linefeed_def)

lemma scanLines_twoSpaces:
  "scanLines (header @ ''package  p\<newline>'') =
     [[], [], ''// This file was automatically generated by genny.'',
      ''// Any changes will be lost if this file is regenerated.'',
      ''// see https://github.com/cheekybits/genny'', [], ''package  p'']"
  by (simp add: header_def scanLines_def rawLines_def dropCR_def maxScanTokenSize_def)

lemma cleanOutput_twoSpaces:
  "cleanOutput (header @ ''package  p\<newline>'') = header @ ''package  p\<newline>''"
proof -
  have "cleanLoop [[], [], ''// This file was automatically generated by genny.'',
      ''// Any changes will be lost if this file is regenerated.'',
      ''// see https://github.com/cheekybits/genny'', [], ''package  p''] False False [] =
     [''\<newline>'', ''\<newline>'', ''// This file was automatically generated by genny.\<newline>'',
      ''// Any changes will be lost if this file is regenerated.\<newline>'',
      ''// see https://github.com/cheekybits/genny\<newline>'', ''\<newline>'', ''package  p\<newline>'']"
    by code_simp
  then show ?thesis
    unfolding cleanOutput_def scanLines_twoSpaces by (simp add: header_def)
qed

lemma generateAll_tab:
  "generateAll (\<lambda>f s. Inr \<lparr>Decls = []\<rparr>) goScan ''t.go'' (''package'' @ [CHR 0x09] @ ''p\<newline>'')
     [[]] header = Inr (header @ ''package'' @ [CHR 0x09] @ ''p\<newline>'')"
  by (simp add: generateSpecific_def scanLines_def rawLines_def dropCR_def maxScanTokenSize_def
     strings_Contains_def genericType_def genericNumber_def strings_HasPrefix_def makeLine_def
     strings_TrimRight_def linefeed_def)

lemma scanLines_tab:
  "scanLines (header @ ''package'' @ [CHR 0x09] @ ''p\<newline>'') =
     [[], [], ''// This file was automatically generated by genny.'',
      ''// Any changes will be lost if this file is regenerated.'',
      ''// see https://github.com/cheekybits/genny'', []] @ (''package'' @ [CHR 0x09] @ ''p'') # []"
  by (simp add: header_def scanLines_def rawLines_def dropCR_def maxScanTokenSize_def)

lemma cleanOutput_tab:
  "cleanOutput (header @ ''package'' @ [CHR 0x09] @ ''p\<newline>'')
     = header @ ''package'' @ [CHR 0x09] @ ''p\<newline>''"
proof -
  have "cleanLoop ([[], [], ''// This file was automatically generated by genny.'',
      ''// Any changes will be lost if this file is regenerated.'',
      ''// see https://github.com/cheekybits/genny'', []] @ (''package'' @ [CHR 0x09] @ ''p'') # [])
       False False [] =
     [''\<newline>'', ''\<newline>'', ''// This file was automatically generated by genny.\<newline>'',
      ''// Any changes will be lost if this file is regenerated.\<newline>'',
      ''// see https://github.com/cheekybits/genny\<newline>'', ''\<newline>'',
      ''package'' @ [CHR 0x09] @ ''p\<newline>'']"
    by code_simp
  then show ?thesis
    unfolding cleanOutput_def scanLines_tab by (simp add: header_def)
qed

lemma scanLines_keyTemplate:
  "scanLines ''package p\<newline>type KeyType generic.Type\<newline>var xKeyType int\<newline>'' =
     [''package p'', ''type KeyType generic.Type'', ''var xKeyType int'']"
  by (simp add: scanLines_def rawLines_def dropCR_def maxScanTokenSize_def)

lemma goScan_var: "goScan ''var xKeyType int'' =
    [(Keyword ''var'', ''var''), (IDENT, ''xKeyType''), (IDENT, ''int''),
     (Operator '';'', ''\<newline>'')]"
  by code_simp

lemma keyTemplate_panics:
  "generateSpecific
     (\<lambda>f s. Inr \<lparr>Decls = [GenDecl [TypeSpec ''KeyType'' (SelectorExpr (Ident ''generic'') ''Type'')],
                           GenDecl [ValueSpec]]\<rparr>)
     goScan ''t.go'' ''package p\<newline>type KeyType generic.Type\<newline>var xKeyType int\<newline>''
     [(''KeyType'', ''*'')] = Inl panicIndexOutOfRange"
proof (rule generateSpecific_panics [where line = "''var xKeyType int''" and tok = IDENT
      and w = "''xKeyType''"])
  show "fragment ''*'' = []" by code_simp
  show "(\<lambda>f s. Inr \<lparr>Decls = [GenDecl [TypeSpec ''KeyType'' (SelectorExpr (Ident ''generic'') ''Type'')],
                           GenDecl [ValueSpec]]\<rparr>) ''t.go''
      ''package p\<newline>type KeyType generic.Type\<newline>var xKeyType int\<newline>'' =
      Inr \<lparr>Decls = [GenDecl [TypeSpec ''KeyType'' (SelectorExpr (Ident ''generic'') ''Type'')],
                           GenDecl [ValueSpec]]\<rparr>"
    by simp
  show "checkDecls (Decls \<lparr>Decls = [GenDecl [TypeSpec ''KeyType''
      (SelectorExpr (Ident ''generic'') ''Type'')], GenDecl [ValueSpec]]\<rparr>) [(''KeyType'', ''*'')]
      = None"
    by (simp add: genericPackage_def)
  show "''var xKeyType int'' \<in> set (scanLines
      ''package p\<newline>type KeyType generic.Type\<newline>var xKeyType int\<newline>'')"
    unfolding scanLines_keyTemplate by simp
  show "\<not> strings_Contains ''var xKeyType int'' genericType" by code_simp
  show "\<not> strings_Contains ''var xKeyType int'' genericNumber" by code_simp
  show "strings_Contains ''var xKeyType int'' ''KeyType''" by code_simp
  show "(IDENT, ''xKeyType'') \<in> set (goScan ''var xKeyType int'')"
    unfolding goScan_var by simp
  show "token_IsLiteral IDENT" by (simp add: token_IsLiteral_def)
  show "''xKeyType'' \<noteq> ''KeyType''" by simp
  show "strings_Contains ''xKeyType'' ''KeyType''" by code_simp
qed

lemma pushLine_subTypes:
  "subTypes goScan [(''KeyType'', ''int'')] ''func (l *KeyTypeList) Push(v KeyType)''
     = Inr ''func ( l * IntList ) Push ( v int ) ; ''"
  by code_simp

lemma pushLine_kept:
  "\<not> strings_Contains ''func (l *KeyTypeList) Push(v KeyType)'' genericType
   \<and> \<not> strings_Contains ''func (l *KeyTypeList) Push(v KeyType)'' genericNumber
   \<and> \<not> strings_HasPrefix ''func ( l * IntList ) Push ( v int ) ; '' ''//''
   \<and> makeLine ''func ( l * IntList ) Push ( v int ) ; ''
       = ''func ( l * IntList ) Push ( v int ) ; \<newline>''"
  by code_simp

lemma scanLines_pushTemplate:
  "scanLines (''package p\<newline>\<newline>type KeyType generic.Type\<newline>\<newline>''
              @ ''func (l *KeyTypeList) Push(v KeyType)\<newline>'') =
     [''package p'', [], ''type KeyType generic.Type'', []]
     @ ''func (l *KeyTypeList) Push(v KeyType)'' # []"
  by (simp add: scanLines_def rawLines_def dropCR_def maxScanTokenSize_def)

lemma generateLines_pushTemplate_pre:
  "generateLines goScan [(''KeyType'', ''int'')]
     [''package p'', [], ''type KeyType generic.Type'', []] [] [] = Inr ''package p\<newline>\<newline>\<newline>''
   \<and> pendingComment goScan [(''KeyType'', ''int'')]
     [''package p'', [], ''type KeyType generic.Type'', []] [] = []"
  by code_simp






lemma subTypes_compound:
  "subTypes goScan [(''KeyType'', ''[]int''), (''ValueType'', ''*p.T'')]
       ''func Get(k KeyType) ValueType''
     = Inr ''func Get ( k [ ] int ) *p.T ; ''
   \<and> subTypes goScan [(''ValueType'', ''*p.T''), (''KeyType'', ''[]int'')]
       ''func Get(k KeyType) ValueType''
     = Inr ''func Get ( k []int ) * p . T ; ''"
  by code_simp




lemma scanLines_blockTemplate:
  "scanLines (''package p\<newline>import (\<newline>  `fmt`\<newline>)\<newline>import `os`\<newline>''
      @ ''type KeyType generic.Type\<newline>var x KeyType\<newline>'') =
     [''package p'', ''import ('', ''  `fmt`'', '')'', ''import `os`'',
      ''type KeyType generic.Type'', ''var x KeyType'']"
  by (simp add: scanLines_def rawLines_def dropCR_def maxScanTokenSize_def)

lemma generateLines_blockTemplate:
  "generateLines goScan [(''KeyType'', ''int'')]
     [''package p'', ''import ('', ''  `fmt`'', '')'', ''import `os`'',
      ''type KeyType generic.Type'', ''var x KeyType''] [] []
     = Inr ''package p\<newline>import (\<newline>  `fmt`\<newline>)\<newline>import `os`\<newline>var x int ; \<newline>''
   \<and> generateLines goScan [(''KeyType'', ''string'')]
     [''package p'', ''import ('', ''  `fmt`'', '')'', ''import `os`'',
      ''type KeyType generic.Type'', ''var x KeyType''] [] []
     = Inr ''package p\<newline>import (\<newline>  `fmt`\<newline>)\<newline>import `os`\<newline>var x string ; \<newline>''"
  by code_simp

lemma generateAll_blockTemplate:
  "generateAll (\<lambda>f s. Inr \<lparr>Decls =
        [GenDecl [ImportSpec], GenDecl [ImportSpec],
         GenDecl [TypeSpec ''KeyType'' (SelectorExpr (Ident ''generic'') ''Type'')],
         GenDecl [ValueSpec]]\<rparr>)
     goScan ''t.go''
     (''package p\<newline>import (\<newline>  `fmt`\<newline>)\<newline>import `os`\<newline>''
      @ ''type KeyType generic.Type\<newline>var x KeyType\<newline>'')
     [[(''KeyType'', ''int'')], [(''KeyType'', ''string'')]] header
   = Inr (header @ ''package p\<newline>import (\<newline>  `fmt`\<newline>)\<newline>import `os`\<newline>var x int ; \<newline>''
       @ ''package p\<newline>import (\<newline>  `fmt`\<newline>)\<newline>import `os`\<newline>var x string ; \<newline>'')"
proof -
  have 1: "generateSpecific (\<lambda>f s. Inr \<lparr>Decls =
        [GenDecl [ImportSpec], GenDecl [ImportSpec],
         GenDecl [TypeSpec ''KeyType'' (SelectorExpr (Ident ''generic'') ''Type'')],
         GenDecl [ValueSpec]]\<rparr>)
      goScan ''t.go''
      (''package p\<newline>import (\<newline>  `fmt`\<newline>)\<newline>import `os`\<newline>''
      @ ''type KeyType generic.Type\<newline>var x KeyType\<newline>'')
      [(''KeyType'', ''int'')]
      = Inr ''package p\<newline>import (\<newline>  `fmt`\<newline>)\<newline>import `os`\<newline>var x int ; \<newline>''"
    unfolding generateSpecific_def scanLines_blockTemplate
    using generateLines_blockTemplate by (simp add: genericPackage_def)
  have 2: "generateSpecific (\<lambda>f s. Inr \<lparr>Decls =
        [GenDecl [ImportSpec], GenDecl [ImportSpec],
         GenDecl [TypeSpec ''KeyType'' (SelectorExpr (Ident ''generic'') ''Type'')],
         GenDecl [ValueSpec]]\<rparr>)
      goScan ''t.go''
      (''package p\<newline>import (\<newline>  `fmt`\<newline>)\<newline>import `os`\<newline>''
      @ ''type KeyType generic.Type\<newline>var x KeyType\<newline>'')
      [(''KeyType'', ''string'')]
      = Inr ''package p\<newline>import (\<newline>  `fmt`\<newline>)\<newline>import `os`\<newline>var x string ; \<newline>''"
    unfolding generateSpecific_def scanLines_blockTemplate
    using generateLines_blockTemplate by (simp add: genericPackage_def)
  show ?thesis unfolding generateAll.simps 1 2 bindE_Inr by simp
qed

lemma scanLines_blockTotal:
  "scanLines (header @ ''package p\<newline>import (\<newline>  `fmt`\<newline>)\<newline>import `os`\<newline>var x int ; \<newline>''
       @ ''package p\<newline>import (\<newline>  `fmt`\<newline>)\<newline>import `os`\<newline>var x string ; \<newline>'') =
     concat (map segmentLines [Plain [], Plain [], Plain ''// This file was automatically generated by genny.'',
      Plain ''// Any changes will be lost if this file is regenerated.'',
      Plain ''// see https://github.com/cheekybits/genny'', Plain [],
      Plain ''package p'', ImportBlock ''import ('' [''  `fmt`''] '')'', ImportLine ''import `os`'',
      Plain ''var x int ; '',
      Plain ''package p'', ImportBlock ''import ('' [''  `fmt`''] '')'', ImportLine ''import `os`'',
      Plain ''var x string ; ''])"
  by (simp add: header_def scanLines_def rawLines_def dropCR_def maxScanTokenSize_def)

lemma validSegments_blockTotal:
  "validSegments [Plain [], Plain [], Plain ''// This file was automatically generated by genny.'',
      Plain ''// Any changes will be lost if this file is regenerated.'',
      Plain ''// see https://github.com/cheekybits/genny'', Plain [],
      Plain ''package p'', ImportBlock ''import ('' [''  `fmt`''] '')'', ImportLine ''import `os`'',
      Plain ''var x int ; '',
      Plain ''package p'', ImportBlock ''import ('' [''  `fmt`''] '')'', ImportLine ''import `os`'',
      Plain ''var x string ; '']"
  by code_simp

lemma cleanLoop_blockTotal:
  "cleanLoop (concat (map plainLines [Plain [], Plain [], Plain ''// This file was automatically generated by genny.'',
      Plain ''// Any changes will be lost if this file is regenerated.'',
      Plain ''// see https://github.com/cheekybits/genny'', Plain [],
      Plain ''package p'', ImportBlock ''import ('' [''  `fmt`''] '')'', ImportLine ''import `os`'',
      Plain ''var x int ; '',
      Plain ''package p'', ImportBlock ''import ('' [''  `fmt`''] '')'', ImportLine ''import `os`'',
      Plain ''var x string ; ''])) False False [] =
     [''\<newline>'', ''\<newline>'', ''// This file was automatically generated by genny.\<newline>'',
      ''// Any changes will be lost if this file is regenerated.\<newline>'',
      ''// see https://github.com/cheekybits/genny\<newline>'', ''\<newline>'', ''package p\<newline>'',
      ''var x int ; \<newline>'', ''var x string ; \<newline>'']"
  by code_simp

section \<open>The claims\<close>

subsection \<open>The concrete scenario (C1)\<close>

text \<open>
  Claim C1, as the code has it. For a template that parses and passes the coverage
  check, with the line \<open>func (l *KeyTypeList) Push(v KeyType)\<close>, and the substitution set
  \<open>{"KeyType": "int"}\<close>, the substituter turns the line into its tokens, each followed by
  one blank, with the semicolon that the scanner inserts at the end of the line: \<open>func ( l * IntList ) Push ( v int ) ; \<close>. The word equal to
  \<open>KeyType\<close> becomes \<open>int\<close> and \<open>KeyTypeList\<close> becomes \<open>IntList\<close>. The per-set generator
  writes that text and a newline, after the output for the lines in front (and a
  pending comment line) and before the output for the lines behind.
\<close>

theorem keyType_scenario:
  assumes "parse filename src = Inr tree"
    and "checkDecls (Decls tree) [(''KeyType'', ''int'')] = None"
    and "scanLines src = pre @ ''func (l *KeyTypeList) Push(v KeyType)'' # post"
  shows "subTypeIntoLine goScan ''func (l *KeyTypeList) Push(v KeyType)'' ''KeyType'' ''int''
       = Inr ''func ( l * IntList ) Push ( v int ) ; ''
    \<and> (\<exists>before after.
          generateLines goScan [(''KeyType'', ''int'')] pre [] [] = Inr before
        \<and> generateLines goScan [(''KeyType'', ''int'')] post [] [] = Inr after
        \<and> generateSpecific parse goScan filename src [(''KeyType'', ''int'')] =
            Inr (before
                 @ (if pendingComment goScan [(''KeyType'', ''int'')] pre [] = [] then []
                    else makeLine (pendingComment goScan [(''KeyType'', ''int'')] pre []))
                 @ ''func ( l * IntList ) Push ( v int ) ; \<newline>''
                 @ after))"
proof -
  let ?ts = "[(''KeyType'', ''int'')]"
  let ?L = "''func (l *KeyTypeList) Push(v KeyType)''"
  let ?c = "pendingComment goScan ?ts pre []"
  have tot: "\<forall>(k, v)\<in>set ?ts. fragment v \<noteq> []" by (simp add: fragment_int)
  from generateLines_total [OF tot] obtain before where
    b: "generateLines goScan ?ts pre [] [] = Inr before"
    by blast
  from generateLines_total [OF tot] obtain after where
    a: "generateLines goScan ?ts post [] [] = Inr after"
    by blast
  have 1: "subTypeIntoLine goScan ?L ''KeyType'' ''int''
       = Inr ''func ( l * IntList ) Push ( v int ) ; ''"
    by code_simp
  have "generateLines goScan ?ts (?L # post) before ?c =
      generateLines goScan ?ts post
        ((if ?c = [] then before else before @ makeLine ?c)
          @ ''func ( l * IntList ) Push ( v int ) ; \<newline>'') []"
    using generateLines_step [of ?L goScan ?ts "''func ( l * IntList ) Push ( v int ) ; ''"
        post before ?c] pushLine_kept pushLine_subTypes
    by (simp del: generateLines.simps subTypes.simps)
  also have "\<dots> = Inr ((if ?c = [] then before else before @ makeLine ?c)
          @ ''func ( l * IntList ) Push ( v int ) ; \<newline>'' @ after)"
    by (subst generateLines_buf) (simp add: a)
  finally have "generateLines goScan ?ts (pre @ ?L # post) [] [] =
      Inr (before @ (if ?c = [] then [] else makeLine ?c)
          @ ''func ( l * IntList ) Push ( v int ) ; \<newline>'' @ after)"
    by (simp add: generateLines_append b)
  with assms have "generateSpecific parse goScan filename src ?ts =
      Inr (before @ (if ?c = [] then [] else makeLine ?c)
          @ ''func ( l * IntList ) Push ( v int ) ; \<newline>'' @ after)"
    by (simp add: generateSpecific_def)
  with 1 a b show ?thesis by blast
qed

theorem keyType_scenario_witness:
  "generateSpecific
     (\<lambda>f s. Inr \<lparr>Decls = [GenDecl [TypeSpec ''KeyType'' (SelectorExpr (Ident ''generic'') ''Type'')],
                           FuncDecl]\<rparr>)
     goScan ''t.go''
     (''package p\<newline>\<newline>type KeyType generic.Type\<newline>\<newline>''
      @ ''func (l *KeyTypeList) Push(v KeyType)\<newline>'')
     [(''KeyType'', ''int'')]
   = Inr (''package p\<newline>\<newline>\<newline>'' @ ''func ( l * IntList ) Push ( v int ) ; \<newline>'')"
proof -
  let ?tree = "\<lparr>Decls = [GenDecl [TypeSpec ''KeyType''
            (SelectorExpr (Ident ''generic'') ''Type'')], FuncDecl]\<rparr>"
  let ?parse = "\<lambda>(f :: string) (s :: string). (Inr ?tree :: string + ast_File)"
  let ?src = "''package p\<newline>\<newline>type KeyType generic.Type\<newline>\<newline>''
              @ ''func (l *KeyTypeList) Push(v KeyType)\<newline>''"
  have 1: "?parse ''t.go'' ?src = Inr ?tree" by simp
  have 2: "checkDecls (Decls ?tree) [(''KeyType'', ''int'')] = None"
    by (simp add: genericPackage_def)
  from keyType_scenario [of ?parse "''t.go''" ?src ?tree, OF 1 2 scanLines_pushTemplate]
  obtain before after where
    "generateLines goScan [(''KeyType'', ''int'')]
       [''package p'', [], ''type KeyType generic.Type'', []] [] [] = Inr before"
    "generateLines goScan [(''KeyType'', ''int'')] [] [] [] = Inr after"
    "generateSpecific ?parse goScan ''t.go'' ?src [(''KeyType'', ''int'')] =
        Inr (before
             @ (if pendingComment goScan [(''KeyType'', ''int'')]
                     [''package p'', [], ''type KeyType generic.Type'', []] [] = [] then []
                else makeLine (pendingComment goScan [(''KeyType'', ''int'')]
                     [''package p'', [], ''type KeyType generic.Type'', []] []))
             @ ''func ( l * IntList ) Push ( v int ) ; \<newline>''
             @ after)"
    by blast
  then show ?thesis
    using generateLines_pushTemplate_pre by simp
qed

text \<open>
  The claim as the specification words it gives the line in its source layout,
  \<open>func (l *IntList) Push(v int)\<close>. The generator's output for the template of the
  scenario does not have that line.
\<close>

theorem keyType_scenario_counterexample:
  "generateSpecific
     (\<lambda>f s. Inr \<lparr>Decls = [GenDecl [TypeSpec ''KeyType'' (SelectorExpr (Ident ''generic'') ''Type'')],
                           FuncDecl]\<rparr>)
     goScan ''t.go''
     (''package p\<newline>\<newline>type KeyType generic.Type\<newline>\<newline>''
      @ ''func (l *KeyTypeList) Push(v KeyType)\<newline>'')
     [(''KeyType'', ''int'')]
   = Inr (''package p\<newline>\<newline>\<newline>'' @ ''func ( l * IntList ) Push ( v int ) ; \<newline>'')
   \<and> ''func (l *IntList) Push(v int)'' \<notin> set (scanLines
        (''package p\<newline>\<newline>\<newline>'' @ ''func ( l * IntList ) Push ( v int ) ; \<newline>''))
   \<and> subTypeIntoLine goScan ''func (l *KeyTypeList) Push(v KeyType)'' ''KeyType'' ''int''
       \<noteq> Inr ''func (l *IntList) Push(v int)''"
proof -
  have g: "generateLines goScan [(''KeyType'', ''int'')]
     [''package p'', [], ''type KeyType generic.Type'', [],
      ''func (l *KeyTypeList) Push(v KeyType)''] [] []
     = Inr (''package p\<newline>\<newline>\<newline>'' @ ''func ( l * IntList ) Push ( v int ) ; \<newline>'')"
    by code_simp
  have a: "generateSpecific
     (\<lambda>f s. Inr \<lparr>Decls = [GenDecl [TypeSpec ''KeyType'' (SelectorExpr (Ident ''generic'') ''Type'')],
                           FuncDecl]\<rparr>)
     goScan ''t.go''
     (''package p\<newline>\<newline>type KeyType generic.Type\<newline>\<newline>''
      @ ''func (l *KeyTypeList) Push(v KeyType)\<newline>'')
     [(''KeyType'', ''int'')]
   = Inr (''package p\<newline>\<newline>\<newline>'' @ ''func ( l * IntList ) Push ( v int ) ; \<newline>'')"
    using g scanLines_pushTemplate by (simp add: generateSpecific_def genericPackage_def)
  have b: "''func (l *IntList) Push(v int)'' \<notin> set (scanLines
        (''package p\<newline>\<newline>\<newline>'' @ ''func ( l * IntList ) Push ( v int ) ; \<newline>''))"
    by (simp add: scanLines_def rawLines_def dropCR_def maxScanTokenSize_def)
  have c: "subTypeIntoLine goScan ''func (l *KeyTypeList) Push(v KeyType)'' ''KeyType'' ''int''
       \<noteq> Inr ''func (l *IntList) Push(v int)''"
    by code_simp
  show ?thesis by (rule conjI [OF a conjI [OF b c]])
qed

subsection \<open>Determinism (C2)\<close>




subsection \<open>The coverage gate (C3)\<close>

text \<open>
  Claim C3, as the code has it. Let the template parse, let a top-level type declaration
  with a selector on \<open>generic\<close> as right-hand side declare a name that is no key of some
  substitution set of the list, and let every replacement of the list have a non-empty
  fragment. Then \<open>Generics\<close> returns no output but a missing-specific-type error: the
  error of the coverage check on the first set of the list that fails it, which names a
  placeholder declared in the template and absent from that set.
\<close>

theorem coverage_gate:
  assumes "parse filename src = Inr tree"
    and "GenDecl specs \<in> set (Decls tree)"
    and "TypeSpec name (SelectorExpr (Ident ''generic'') sel) \<in> set specs"
    and "typeSet \<in> set typeSets" and "map_of typeSet name = None"
    and "\<forall>ts\<in>set typeSets. \<forall>(k, v)\<in>set ts. fragment v \<noteq> []"
  shows "\<exists>pre ts post g specs' sel'. typeSets = pre @ ts # post
     \<and> (\<forall>t\<in>set pre. checkDecls (Decls tree) t = None)
     \<and> checkDecls (Decls tree) ts = Some (errMissingSpecificType g)
     \<and> GenDecl specs' \<in> set (Decls tree)
     \<and> TypeSpec g (SelectorExpr (Ident ''generic'') sel') \<in> set specs'
     \<and> map_of ts g = None
     \<and> Generics parse scan process filename outputFilename pkgName src typeSets
         = Inl (errMissingSpecificType g)"
proof -
  have "checkDecls (Decls tree) typeSet \<noteq> None"
    using assms(2,3,5) by (rule checkDecls_missing)
  with generateAll_missing [of parse filename src tree typeSets typeSet scan header]
    assms(1,4,6)
  obtain pre ts post e where 1: "typeSets = pre @ ts # post"
    "\<forall>t\<in>set pre. checkDecls (Decls tree) t = None"
    "checkDecls (Decls tree) ts = Some e"
    "generateAll parse scan filename src typeSets header = Inl e"
    by blast
  from checkDecls_Some [OF 1(3)] obtain g specs' sel' where 2: "e = errMissingSpecificType g"
    "GenDecl specs' \<in> set (Decls tree)"
    "TypeSpec g (SelectorExpr (Ident ''generic'') sel') \<in> set specs'" "map_of ts g = None"
    by blast
  from 1(4) have "Generics parse scan process filename outputFilename pkgName src typeSets = Inl e"
    by (simp add: Generics_def preNormalized_def)
  with 1 2 show ?thesis by blast
qed

theorem coverage_gate_witness:
  "Generics
     (\<lambda>f s. Inr \<lparr>Decls = [GenDecl [TypeSpec ''KeyType'' (SelectorExpr (Ident ''generic'') ''Type'')],
                           GenDecl [ValueSpec]]\<rparr>)
     goScan (\<lambda>f s. Inr s) ''t.go'' ''o.go'' []
     ''package p\<newline>type KeyType generic.Type\<newline>var xKeyType int\<newline>''
     [[(''KeyType'', ''int'')], []] = Inl (errMissingSpecificType ''KeyType'')"
proof -
  let ?tree = "\<lparr>Decls = [GenDecl [TypeSpec ''KeyType''
            (SelectorExpr (Ident ''generic'') ''Type'')], GenDecl [ValueSpec]]\<rparr>"
  let ?parse = "\<lambda>(f :: string) (s :: string). (Inr ?tree :: string + ast_File)"
  let ?src = "''package p\<newline>type KeyType generic.Type\<newline>var xKeyType int\<newline>''"
  have 1: "?parse ''t.go'' ?src = Inr ?tree" by simp
  have 2: "GenDecl [TypeSpec ''KeyType'' (SelectorExpr (Ident ''generic'') ''Type'')]
      \<in> set (Decls ?tree)"
    by simp
  have 3: "TypeSpec ''KeyType'' (SelectorExpr (Ident ''generic'') ''Type'')
      \<in> set [TypeSpec ''KeyType'' (SelectorExpr (Ident ''generic'') ''Type'')]"
    by simp
  have 4: "[] \<in> set [[(''KeyType'', ''int'')], []]" by simp
  have 5: "map_of ([] :: typeSet) ''KeyType'' = None" by simp
  have 6: "\<forall>ts\<in>set [[(''KeyType'', ''int'')], []]. \<forall>(k, v)\<in>set ts. fragment v \<noteq> []"
    by (simp add: fragment_int)
  from coverage_gate [of ?parse "''t.go''" ?src, OF 1 2 3 4 5 6,
      of goScan "\<lambda>f s. Inr s" "''o.go''" "[]"]
  obtain g specs' sel' where g: "GenDecl specs' \<in> set (Decls ?tree)"
    "TypeSpec g (SelectorExpr (Ident ''generic'') sel') \<in> set specs'"
    "Generics ?parse goScan (\<lambda>f s. Inr s) ''t.go'' ''o.go'' [] ?src [[(''KeyType'', ''int'')], []]
       = Inl (errMissingSpecificType g)"
    by blast
  from g(1,2) have "g = ''KeyType''" by auto
  with g(3) show ?thesis by simp
qed

text \<open>
  Without the condition on the replacements the claim fails: the sets are generated in
  list order, and a set in front of the one that lacks a key can make the substituter
  panic (claim C8) before the coverage check of the later set is reached.
\<close>

theorem coverage_gate_counterexample:
  "map_of ([] :: typeSet) ''KeyType'' = None
   \<and> Generics
     (\<lambda>f s. Inr \<lparr>Decls = [GenDecl [TypeSpec ''KeyType'' (SelectorExpr (Ident ''generic'') ''Type'')],
                           GenDecl [ValueSpec]]\<rparr>)
     goScan (\<lambda>f s. Inr s) ''t.go'' ''o.go'' []
     ''package p\<newline>type KeyType generic.Type\<newline>var xKeyType int\<newline>''
     [[(''KeyType'', ''*'')], []] = Inl panicIndexOutOfRange"
  by (simp add: Generics_def preNormalized_def keyTemplate_panics)

subsection \<open>Export preservation (C4)\<close>

text \<open>
  Claim C4, as the code has it. For a word \<open>lit\<close> that contains \<open>P\<close> without being equal
  to it and whose first byte is not an upper-case letter, and a replacement \<open>R\<close> with a
  non-empty fragment: every occurrence of \<open>P\<close> is replaced by the fragment with its first
  byte upper-cased, and when the result begins with that exported form, the leading
  occurrence is replaced by the fragment itself; the rest of the word stays. The
  fragment is not lower-cased: the unexported form begins with a lower-case letter only
  when the fragment of \<open>R\<close> does.
\<close>

theorem subIntoLiteral_unexported:
  assumes "lit \<noteq> P" and "strings_Contains lit P" and "\<not> isExported lit"
    and "fragment R \<noteq> []"
  shows "subIntoLiteral lit P R =
     Inr (let specificLg = upperByte (hd (fragment R)) @ tl (fragment R);
              result = strings_Replace lit P specificLg (- 1)
          in if prefix specificLg result
             then fragment R @ drop (length specificLg) result
             else result)"
  using assms
  by (simp add: subIntoLiteral_def wordify_exported wordify_unexported bindE_def Let_def
      strings_HasPrefix_def strings_Replace_first upperByte_nonempty)

theorem subIntoLiteral_unexported_witness:
  "''keyTypeList'' \<noteq> ''keyType'' \<and> strings_Contains ''keyTypeList'' ''keyType''
   \<and> \<not> isExported ''keyTypeList'' \<and> fragment ''*pkg.Thing{}'' = ''pkgThing''
   \<and> subIntoLiteral ''keyTypeList'' ''keyType'' ''*pkg.Thing{}'' = Inr ''pkgThingList''"
proof -
  have 1: "''keyTypeList'' \<noteq> ''keyType''" by simp
  have 2: "strings_Contains ''keyTypeList'' ''keyType''" by code_simp
  have 3: "\<not> isExported ''keyTypeList''" by code_simp
  have 4: "fragment ''*pkg.Thing{}'' = ''pkgThing''" by code_simp
  have 5: "fragment ''*pkg.Thing{}'' \<noteq> []" unfolding 4 by simp
  have 6: "upperByte CHR ''p'' = ''P''" by code_simp
  have 7: "strings_Replace ''keyTypeList'' ''keyType'' ''PkgThing'' (- 1) = ''PkgThingList''"
    by code_simp
  show ?thesis
    using subIntoLiteral_unexported [OF 1 2 3 5] 1 2 3
    by (simp add: 4 6 7 Let_def)
qed

text \<open>
  The claim as the specification words it has the leading occurrence replaced by a
  form with a lower-cased first letter. With the replacement \<open>Int\<close> the unexported word
  \<open>keyTypeList\<close> becomes the exported \<open>IntList\<close>, not \<open>intList\<close>.
\<close>

theorem subIntoLiteral_unexported_counterexample:
  "\<not> isExported ''keyTypeList'' \<and> strings_Contains ''keyTypeList'' ''keyType''
   \<and> subIntoLiteral ''keyTypeList'' ''keyType'' ''Int'' = Inr ''IntList''
   \<and> subIntoLiteral ''keyTypeList'' ''keyType'' ''Int'' \<noteq> Inr ''intList''
   \<and> isExported ''IntList''"
  by code_simp

subsection \<open>Merge correctness (C5)\<close>

text \<open>
  Claim C5, as the code has it. When the per-set generation succeeds, the cleaned text
  (before the package rename and the import normaliser)
  \<^item> has at most one line that starts with the package keyword, and exactly one when in
    the concatenation a line starting with the package keyword comes before any line
    starting with the import keyword;
  \<^item> has no line that starts with the import keyword;
  \<^item> has no line of an import block whose opening line starts with the import keyword
    and ends with the opening parenthesis, up to and including the next line that ends
    with the closing parenthesis (or the end of the text when there is none): however
    the concatenation is cut into plain lines, single-line import statements and such
    blocks, the cleaned text is the clean-up of the plain lines alone, and each of its
    lines is one of them; and every text can be cut in this way, by \<open>segments\<close>.
\<close>

theorem merged_package_import_lines:
  assumes "generateAll parse scan filename src typeSets header = Inr totalOutput"
  shows "length (filter (\<lambda>k. strings_HasPrefix k packageKeyword)
             (scanLines (cleanOutput totalOutput))) \<le> 1
    \<and> (\<forall>k\<in>set (scanLines (cleanOutput totalOutput)). \<not> strings_HasPrefix k importKeyword)
    \<and> ((\<exists>pre l post. scanLines totalOutput = pre @ l # post
           \<and> (\<forall>x\<in>set pre. \<not> strings_HasPrefix x packageKeyword
                            \<and> \<not> strings_HasPrefix x importKeyword)
           \<and> strings_HasPrefix l packageKeyword) \<longrightarrow>
        length (filter (\<lambda>k. strings_HasPrefix k packageKeyword)
             (scanLines (cleanOutput totalOutput))) = 1)
    \<and> (validSegments segs \<and> scanLines totalOutput = concat (map segmentLines segs) \<longrightarrow>
        cleanOutput totalOutput
          = strings_Join (cleanLoop (concat (map plainLines segs)) False False []) []
        \<and> set (scanLines (cleanOutput totalOutput))
          \<subseteq> trimmed ` set (concat (map plainLines segs)))
    \<and> validSegments (segments (scanLines totalOutput))
    \<and> concat (map segmentLines (segments (scanLines totalOutput))) = scanLines totalOutput"
proof -
  let ?P = "\<lambda>k. strings_HasPrefix k packageKeyword"
  have f: "filter ?P (map trimmed ks) = map trimmed (filter ?P ks)" for ks
    by (simp add: filter_map comp_def HasPrefix_trimmed)
  have 1: "length (filter ?P (scanLines (cleanOutput totalOutput))) \<le> 1"
    using kept_package_le1 [of "scanLines totalOutput" False False]
    by (simp add: scanLines_cleanOutput f)
  have 2: "\<forall>k\<in>set (scanLines (cleanOutput totalOutput)). \<not> strings_HasPrefix k importKeyword"
    by (auto simp: scanLines_cleanOutput HasPrefix_trimmed dest: kept_no_import)
  have 3: "length (filter ?P (scanLines (cleanOutput totalOutput))) = 1"
    if "\<exists>pre l post. scanLines totalOutput = pre @ l # post
           \<and> (\<forall>x\<in>set pre. \<not> strings_HasPrefix x packageKeyword
                            \<and> \<not> strings_HasPrefix x importKeyword)
           \<and> strings_HasPrefix l packageKeyword"
  proof -
    from that obtain pre l post where "scanLines totalOutput = pre @ l # post"
      "\<forall>x\<in>set pre. \<not> strings_HasPrefix x packageKeyword \<and> \<not> strings_HasPrefix x importKeyword"
      "strings_HasPrefix l packageKeyword"
      by blast
    then show ?thesis
      by (simp add: scanLines_cleanOutput f kept_package_first)
  qed
  have 4: "cleanOutput totalOutput
          = strings_Join (cleanLoop (concat (map plainLines segs)) False False []) []
        \<and> set (scanLines (cleanOutput totalOutput))
          \<subseteq> trimmed ` set (concat (map plainLines segs))"
    if v: "validSegments segs \<and> scanLines totalOutput = concat (map segmentLines segs)"
  proof
    from v show a: "cleanOutput totalOutput
          = strings_Join (cleanLoop (concat (map plainLines segs)) False False []) []"
      by (simp add: cleanOutput_def cleanLoop_segments)
    from v have "map makeLine (kept (scanLines totalOutput) False False)
        = map makeLine (kept (concat (map plainLines segs)) False False)"
      using cleanLoop_segments [of segs False "[]"] by (simp add: cleanLoop_kept)
    then have "map trimmed (kept (scanLines totalOutput) False False)
        = map trimmed (kept (concat (map plainLines segs)) False False)"
      unfolding map_trimmed_makeLine by simp
    then show "set (scanLines (cleanOutput totalOutput))
          \<subseteq> trimmed ` set (concat (map plainLines segs))"
      using kept_subset [of "concat (map plainLines segs)" False False]
      by (auto simp: scanLines_cleanOutput)
  qed
  note 5 = segments_valid [of "scanLines totalOutput"]
  note 6 = segments_lines [of "scanLines totalOutput"]
  from 1 2 3 4 5 6 show ?thesis by blast
qed

theorem merged_package_import_lines_witness:
  "generateAll (\<lambda>f s. Inr \<lparr>Decls =
        [GenDecl [ImportSpec], GenDecl [ImportSpec],
         GenDecl [TypeSpec ''KeyType'' (SelectorExpr (Ident ''generic'') ''Type'')],
         GenDecl [ValueSpec]]\<rparr>)
     goScan ''t.go''
     (''package p\<newline>import (\<newline>  `fmt`\<newline>)\<newline>import `os`\<newline>''
      @ ''type KeyType generic.Type\<newline>var x KeyType\<newline>'')
     [[(''KeyType'', ''int'')], [(''KeyType'', ''string'')]] header
   = Inr (header @ ''package p\<newline>import (\<newline>  `fmt`\<newline>)\<newline>import `os`\<newline>var x int ; \<newline>''
       @ ''package p\<newline>import (\<newline>  `fmt`\<newline>)\<newline>import `os`\<newline>var x string ; \<newline>'')
   \<and> cleanOutput (header @ ''package p\<newline>import (\<newline>  `fmt`\<newline>)\<newline>import `os`\<newline>var x int ; \<newline>''
       @ ''package p\<newline>import (\<newline>  `fmt`\<newline>)\<newline>import `os`\<newline>var x string ; \<newline>'')
     = (header @ ''package p\<newline>var x int ; \<newline>var x string ; \<newline>'')
   \<and> length (filter (\<lambda>k. strings_HasPrefix k packageKeyword)
        (scanLines (cleanOutput (header @ ''package p\<newline>import (\<newline>  `fmt`\<newline>)\<newline>import `os`\<newline>var x int ; \<newline>''
       @ ''package p\<newline>import (\<newline>  `fmt`\<newline>)\<newline>import `os`\<newline>var x string ; \<newline>'')))) = 1
   \<and> filter (\<lambda>k. strings_HasPrefix k importKeyword)
        (scanLines (cleanOutput (header @ ''package p\<newline>import (\<newline>  `fmt`\<newline>)\<newline>import `os`\<newline>var x int ; \<newline>''
       @ ''package p\<newline>import (\<newline>  `fmt`\<newline>)\<newline>import `os`\<newline>var x string ; \<newline>''))) = []"
proof -
  let ?total = "(header @ ''package p\<newline>import (\<newline>  `fmt`\<newline>)\<newline>import `os`\<newline>var x int ; \<newline>''
       @ ''package p\<newline>import (\<newline>  `fmt`\<newline>)\<newline>import `os`\<newline>var x string ; \<newline>'')"
  let ?segs = "[Plain [], Plain [], Plain ''// This file was automatically generated by genny.'',
      Plain ''// Any changes will be lost if this file is regenerated.'',
      Plain ''// see https://github.com/cheekybits/genny'', Plain [],
      Plain ''package p'', ImportBlock ''import ('' [''  `fmt`''] '')'', ImportLine ''import `os`'',
      Plain ''var x int ; '',
      Plain ''package p'', ImportBlock ''import ('' [''  `fmt`''] '')'', ImportLine ''import `os`'',
      Plain ''var x string ; '']"
  let ?pre = "[[], [], ''// This file was automatically generated by genny.'',
      ''// Any changes will be lost if this file is regenerated.'',
      ''// see https://github.com/cheekybits/genny'', []]"
  note th = merged_package_import_lines [OF generateAll_blockTemplate, of ?segs]
  from th validSegments_blockTotal scanLines_blockTotal
  have "cleanOutput ?total
      = strings_Join (cleanLoop (concat (map plainLines ?segs)) False False []) []"
    by blast
  then have c: "cleanOutput ?total
      = (header @ ''package p\<newline>var x int ; \<newline>var x string ; \<newline>'')"
    unfolding cleanLoop_blockTotal by (simp add: header_def)
  have "scanLines ?total = ?pre @ ''package p'' # [''import ('', ''  `fmt`'', '')'', ''import `os`'', ''var x int ; '',
        ''package p'', ''import ('', ''  `fmt`'', '')'', ''import `os`'', ''var x string ; '']
      \<and> (\<forall>x\<in>set ?pre. \<not> strings_HasPrefix x packageKeyword
                            \<and> \<not> strings_HasPrefix x importKeyword)
      \<and> strings_HasPrefix ''package p'' packageKeyword"
    unfolding scanLines_blockTotal
    by (simp add: strings_HasPrefix_def packageKeyword_def importKeyword_def)
  then have "\<exists>pre l post. scanLines ?total = pre @ l # post
           \<and> (\<forall>x\<in>set pre. \<not> strings_HasPrefix x packageKeyword
                            \<and> \<not> strings_HasPrefix x importKeyword)
           \<and> strings_HasPrefix l packageKeyword"
    by blast
  with th have n: "length (filter (\<lambda>k. strings_HasPrefix k packageKeyword)
        (scanLines (cleanOutput ?total))) = 1"
    by blast
  from th have i: "filter (\<lambda>k. strings_HasPrefix k importKeyword)
        (scanLines (cleanOutput ?total)) = []"
    unfolding filter_empty_conv by blast
  show ?thesis
    by (rule conjI [OF generateAll_blockTemplate conjI [OF c conjI [OF n i]]])
qed

text \<open>
  The claim as the specification words it asks for exactly one line starting with the
  package keyword and for no line of a hand-written import block, whatever the layout
  of the package clause and of the block's opening line. A template whose
  package clause is indented and whose import block opens with a comment after the
  parenthesis passes the parser (one import declaration); its cleaned text has no line
  starting with the package keyword, and the path line and the closing line of the
  import block are still there.
\<close>

theorem merged_package_import_lines_counterexample:
  "generateAll (\<lambda>f s. Inr \<lparr>Decls = [GenDecl [ImportSpec]]\<rparr>) goScan ''t.go''
     '' package p\<newline>import ( // std\<newline>  `fmt`\<newline>)\<newline>'' [[]] header
     = Inr (header @ '' package p\<newline>import ( // std\<newline>  `fmt`\<newline>)\<newline>'')
   \<and> scanLines (cleanOutput
         (header @ '' package p\<newline>import ( // std\<newline>  `fmt`\<newline>)\<newline>'')) =
       [[], [], ''// This file was automatically generated by genny.'',
        ''// Any changes will be lost if this file is regenerated.'',
        ''// see https://github.com/cheekybits/genny'', [], '' package p'', ''  `fmt`'', '')'']
   \<and> filter (\<lambda>k. strings_HasPrefix k packageKeyword) (scanLines (cleanOutput
         (header @ '' package p\<newline>import ( // std\<newline>  `fmt`\<newline>)\<newline>''))) = []"
proof -
  have a: "generateAll (\<lambda>f s. Inr \<lparr>Decls = [GenDecl [ImportSpec]]\<rparr>) goScan ''t.go''
     '' package p\<newline>import ( // std\<newline>  `fmt`\<newline>)\<newline>'' [[]] header
     = Inr (header @ '' package p\<newline>import ( // std\<newline>  `fmt`\<newline>)\<newline>'')"
    by (rule generateAll_indented)
  have b: "scanLines (cleanOutput
         (header @ '' package p\<newline>import ( // std\<newline>  `fmt`\<newline>)\<newline>'')) =
       [[], [], ''// This file was automatically generated by genny.'',
        ''// Any changes will be lost if this file is regenerated.'',
        ''// see https://github.com/cheekybits/genny'', [], '' package p'', ''  `fmt`'', '')'']"
    unfolding cleanOutput_indented
    by (simp add: header_def scanLines_def rawLines_def dropCR_def maxScanTokenSize_def)
  have c: "filter (\<lambda>k. strings_HasPrefix k packageKeyword) (scanLines (cleanOutput
         (header @ '' package p\<newline>import ( // std\<newline>  `fmt`\<newline>)\<newline>''))) = []"
    unfolding b by (simp add: strings_HasPrefix_def packageKeyword_def)
  show ?thesis by (rule conjI [OF a conjI [OF b c]])
qed

subsection \<open>Exact-match identity (C6)\<close>

text \<open>
  Claim C6. A word that is exactly the placeholder name \<open>P\<close> is replaced by the
  replacement expression \<open>R\<close> as it is, for every \<open>P\<close> and \<open>R\<close>: \<open>wordify\<close> is not applied,
  so casing and punctuation of \<open>R\<close> stay.
\<close>

theorem exact_match_identity: "subIntoLiteral P P R = Inr R"
  by (simp add: subIntoLiteral_def)

subsection \<open>The package renamer (C7)\<close>

text \<open>
  Claim C7, as the code has it. With a non-empty target name, the cleaned text is a
  sequence of newline-terminated lines, and \<open>Generics\<close> hands to the import normaliser
  the same lines with one change: the first line starting with \<open>package\<close>, provided it
  holds a space, is split at every single space and its second part (index 1) is
  replaced by the target name; every other line is unchanged, and without a line
  starting with \<open>package\<close> the text is unchanged.
\<close>

theorem package_renamer:
  assumes "pkgName \<noteq> []"
    and "generateAll parse scan filename src typeSets header = Inr totalOutput"
  shows "cleanOutput totalOutput = joinLines (scanLines (cleanOutput totalOutput))
    \<and> ((\<forall>x\<in>set (scanLines (cleanOutput totalOutput)). \<not> strings_HasPrefix x ''package'') \<longrightarrow>
         preNormalized parse scan filename pkgName src typeSets = Inr (cleanOutput totalOutput))
    \<and> (\<forall>pre l post.
          scanLines (cleanOutput totalOutput) = pre @ l # post
          \<and> (\<forall>x\<in>set pre. \<not> strings_HasPrefix x ''package'')
          \<and> strings_HasPrefix l ''package'' \<and> CHR '' '' \<in> set l \<longrightarrow>
          preNormalized parse scan filename pkgName src typeSets =
            Inr (joinLines (pre @ [strings_Join ((splitByte CHR '' '' l)[1 := pkgName]) '' '']
                            @ post)))"
proof -
  have j: "cleanOutput totalOutput = joinLines (scanLines (cleanOutput totalOutput))"
    by (simp add: scanLines_cleanOutput) (rule cleanOutput_kept)
  have p: "preNormalized parse scan filename pkgName src typeSets =
      changePackage_loop (scanLines (cleanOutput totalOutput)) pkgName False []"
    using assms by (simp add: preNormalized_def changePackage_def)
  have 2: "preNormalized parse scan filename pkgName src typeSets = Inr (cleanOutput totalOutput)"
    if "\<forall>x\<in>set (scanLines (cleanOutput totalOutput)). \<not> strings_HasPrefix x ''package''"
    using that j by (simp add: p changePackage_loop_none)
  have 3: "preNormalized parse scan filename pkgName src typeSets =
            Inr (joinLines (pre @ [strings_Join ((splitByte CHR '' '' l)[1 := pkgName]) '' '']
                            @ post))"
    if "scanLines (cleanOutput totalOutput) = pre @ l # post
          \<and> (\<forall>x\<in>set pre. \<not> strings_HasPrefix x ''package'')
          \<and> strings_HasPrefix l ''package'' \<and> CHR '' '' \<in> set l" for pre l post
    using that by (simp add: p changePackage_loop_first)
  from j 2 3 show ?thesis by blast
qed

theorem package_renamer_witness:
  "generateAll (\<lambda>f s. Inr \<lparr>Decls = []\<rparr>) goScan ''t.go'' ''package p\<newline>'' [[]] header
     = Inr (header @ ''package p\<newline>'')
   \<and> preNormalized (\<lambda>f s. Inr \<lparr>Decls = []\<rparr>) goScan ''t.go'' ''main'' ''package p\<newline>'' [[]]
     = Inr (header @ ''package main\<newline>'')"
proof -
  let ?pre = "[[], [], ''// This file was automatically generated by genny.'',
      ''// Any changes will be lost if this file is regenerated.'',
      ''// see https://github.com/cheekybits/genny'', []]"
  have n: "''main'' \<noteq> []" by simp
  have s: "scanLines (cleanOutput (header @ ''package p\<newline>'')) = ?pre @ ''package p'' # []
      \<and> (\<forall>x\<in>set ?pre. \<not> strings_HasPrefix x ''package'')
      \<and> strings_HasPrefix ''package p'' ''package'' \<and> CHR '' '' \<in> set ''package p''"
    unfolding cleanOutput_plain scanLines_plain by (simp add: strings_HasPrefix_def)
  have j: "strings_Join ((splitByte CHR '' '' ''package p'')[1 := ''main'']) '' '' = ''package main''"
    by code_simp
  from package_renamer [OF n generateAll_plain] s
  have "preNormalized (\<lambda>f s. Inr \<lparr>Decls = []\<rparr>) goScan ''t.go'' ''main'' ''package p\<newline>'' [[]]
     = Inr (joinLines (?pre @ [strings_Join ((splitByte CHR '' '' ''package p'')[1 := ''main'']) '' '']
                            @ []))"
    by blast
  then have "preNormalized (\<lambda>f s. Inr \<lparr>Decls = []\<rparr>) goScan ''t.go'' ''main'' ''package p\<newline>'' [[]]
     = Inr (header @ ''package main\<newline>'')"
    unfolding j by (simp add: joinLines_def header_def)
  with generateAll_plain show ?thesis by (rule conjI)
qed

text \<open>
  The claim as the specification words it splits the line on white space and replaces the
  second token. On a package clause with two spaces the second part is empty: the
  target name is put between the keyword and the old name, which stays
  (\<open>strings.Fields\<close> finds the old name as the second token).
\<close>

theorem package_renamer_counterexample:
  "preNormalized (\<lambda>f s. Inr \<lparr>Decls = []\<rparr>) goScan ''t.go'' ''main'' ''package  p\<newline>'' [[]]
     = Inr (header @ ''package main p\<newline>'')
   \<and> strings_Fields ''package  p'' = [''package'', ''p'']"
proof -
  have l: "changePackage_loop [[], [], ''// This file was automatically generated by genny.'',
      ''// Any changes will be lost if this file is regenerated.'',
      ''// see https://github.com/cheekybits/genny'', [], ''package  p''] ''main'' False [] =
     Inr (''\<newline>\<newline>// This file was automatically generated by genny.\<newline>''
     @ ''// Any changes will be lost if this file is regenerated.\<newline>''
     @ ''// see https://github.com/cheekybits/genny\<newline>\<newline>'' @ ''package main p\<newline>'')"
    by code_simp
  have a: "preNormalized (\<lambda>f s. Inr \<lparr>Decls = []\<rparr>) goScan ''t.go'' ''main'' ''package  p\<newline>'' [[]]
     = Inr (header @ ''package main p\<newline>'')"
    unfolding preNormalized_def generateAll_twoSpaces bindE_Inr cleanOutput_twoSpaces
      changePackage_def scanLines_twoSpaces l
    by (simp add: header_def)
  have b: "strings_Fields ''package  p'' = [''package'', ''p'']" by code_simp
  show ?thesis by (rule conjI [OF a b])
qed

subsection \<open>Panics of the substituter (C8)\<close>

text \<open>
  Claim C8. \<open>subIntoLiteral\<close> panics with an index out of range exactly when the word is
  not the placeholder name, contains it, and the replacement is empty after the three
  stripping steps of \<open>wordify\<close> (as for the replacements \<open>""\<close>, \<open>*\<close> and \<open>{}\<close>). The panic
  reaches \<open>generateSpecific\<close> and \<open>Generics\<close>: for a substitution set with the one pair
  \<open>(P, R)\<close>, a template that parses and passes the coverage check, and a line that is
  not dropped, contains \<open>P\<close> and has a literal token that contains \<open>P\<close> without being
  equal to it, both panic. When every replacement of a set has a non-empty fragment,
  the line loop of \<open>generateSpecific\<close> returns.
\<close>

theorem substituter_panics:
  "((subIntoLiteral lit P R = Inl panicIndexOutOfRange) =
      (lit \<noteq> P \<and> strings_Contains lit P \<and> fragment R = []))
   \<and> (fragment R = [] \<and> parse filename src = Inr tree
        \<and> checkDecls (Decls tree) [(P, R)] = None
        \<and> line \<in> set (scanLines src)
        \<and> \<not> strings_Contains line genericType \<and> \<not> strings_Contains line genericNumber
        \<and> strings_Contains line P
        \<and> (tok, w) \<in> set (scan line) \<and> token_IsLiteral tok
        \<and> w \<noteq> P \<and> strings_Contains w P \<longrightarrow>
       generateSpecific parse scan filename src [(P, R)] = Inl panicIndexOutOfRange
       \<and> Generics parse scan process filename outputFilename pkgName src ([(P, R)] # typeSets)
           = Inl panicIndexOutOfRange)
   \<and> ((\<forall>(k, v)\<in>set typeSet. fragment v \<noteq> []) \<longrightarrow>
        (\<exists>out. generateLines scan typeSet lines buf comment = Inr out))
   \<and> fragment [] = [] \<and> fragment ''*'' = [] \<and> fragment ''{}'' = []"
proof (intro conjI impI)
  show "(subIntoLiteral lit P R = Inl panicIndexOutOfRange) =
      (lit \<noteq> P \<and> strings_Contains lit P \<and> fragment R = [])"
    by (rule subIntoLiteral_panics)
next
  assume a: "fragment R = [] \<and> parse filename src = Inr tree
        \<and> checkDecls (Decls tree) [(P, R)] = None
        \<and> line \<in> set (scanLines src)
        \<and> \<not> strings_Contains line genericType \<and> \<not> strings_Contains line genericNumber
        \<and> strings_Contains line P
        \<and> (tok, w) \<in> set (scan line) \<and> token_IsLiteral tok
        \<and> w \<noteq> P \<and> strings_Contains w P"
  then show g: "generateSpecific parse scan filename src [(P, R)] = Inl panicIndexOutOfRange"
    using generateSpecific_panics [of R parse filename src tree P line tok w scan] by blast
  then show "Generics parse scan process filename outputFilename pkgName src ([(P, R)] # typeSets)
           = Inl panicIndexOutOfRange"
    by (simp add: Generics_def preNormalized_def)
next
  assume "\<forall>(k, v)\<in>set typeSet. fragment v \<noteq> []"
  then show "\<exists>out. generateLines scan typeSet lines buf comment = Inr out"
    by (rule generateLines_total)
qed (simp_all add: fragment_examples)

theorem substituter_panics_witness:
  "subIntoLiteral ''xKeyType'' ''KeyType'' ''*'' = Inl panicIndexOutOfRange
   \<and> Generics
     (\<lambda>f s. Inr \<lparr>Decls = [GenDecl [TypeSpec ''KeyType'' (SelectorExpr (Ident ''generic'') ''Type'')],
                           GenDecl [ValueSpec]]\<rparr>)
     goScan (\<lambda>f s. Inr s) ''t.go'' ''o.go'' []
     ''package p\<newline>type KeyType generic.Type\<newline>var xKeyType int\<newline>''
     [[(''KeyType'', ''*'')]] = Inl panicIndexOutOfRange
   \<and> (\<exists>out. generateLines goScan [(''KeyType'', ''int'')] [''var xKeyType int''] [] [] = Inr out)"
proof -
  let ?parse = "\<lambda>(f :: string) (s :: string).
     (Inr \<lparr>Decls = [GenDecl [TypeSpec ''KeyType'' (SelectorExpr (Ident ''generic'') ''Type'')],
                           GenDecl [ValueSpec]]\<rparr> :: string + ast_File)"
  let ?src = "''package p\<newline>type KeyType generic.Type\<newline>var xKeyType int\<newline>''"
  have f: "fragment ''*'' = []" by code_simp
  have c: "checkDecls (Decls \<lparr>Decls = [GenDecl [TypeSpec ''KeyType''
      (SelectorExpr (Ident ''generic'') ''Type'')], GenDecl [ValueSpec]]\<rparr>) [(''KeyType'', ''*'')]
      = None"
    by (simp add: genericPackage_def)
  have l: "''var xKeyType int'' \<in> set (scanLines ?src)"
    unfolding scanLines_keyTemplate by simp
  have g1: "\<not> strings_Contains ''var xKeyType int'' genericType" by code_simp
  have g2: "\<not> strings_Contains ''var xKeyType int'' genericNumber" by code_simp
  have k: "strings_Contains ''var xKeyType int'' ''KeyType''" by code_simp
  have t: "(IDENT, ''xKeyType'') \<in> set (goScan ''var xKeyType int'')"
    unfolding goScan_var by simp
  have i: "token_IsLiteral IDENT" by (simp add: token_IsLiteral_def)
  have n: "''xKeyType'' \<noteq> ''KeyType''" by simp
  have w: "strings_Contains ''xKeyType'' ''KeyType''" by code_simp
  have v: "\<forall>(k, v)\<in>set [(''KeyType'', ''int'')]. fragment v \<noteq> []" by code_simp
  note th = substituter_panics [where lit = "''xKeyType''" and P = "''KeyType''" and R = "''*''"
      and parse = ?parse and filename = "''t.go''" and src = ?src
      and tree = "\<lparr>Decls = [GenDecl [TypeSpec ''KeyType''
            (SelectorExpr (Ident ''generic'') ''Type'')], GenDecl [ValueSpec]]\<rparr>"
      and line = "''var xKeyType int''" and tok = IDENT and w = "''xKeyType''" and scan = goScan
      and process = "\<lambda>f s. Inr s" and outputFilename = "''o.go''" and pkgName = "[]"
      and typeSets = "[]" and typeSet = "[(''KeyType'', ''int'')]"
      and lines = "[''var xKeyType int'']" and buf = "[]" and comment = "[]"]
  from th n w f have a: "subIntoLiteral ''xKeyType'' ''KeyType'' ''*'' = Inl panicIndexOutOfRange"
    by blast
  from th f c l g1 g2 k t i n w have b: "Generics ?parse goScan (\<lambda>f s. Inr s) ''t.go'' ''o.go'' []
      ?src [[(''KeyType'', ''*'')]] = Inl panicIndexOutOfRange"
    by simp
  from th v have d: "\<exists>out. generateLines goScan [(''KeyType'', ''int'')] [''var xKeyType int'']
      [] [] = Inr out"
    by blast
  show ?thesis by (rule conjI [OF a conjI [OF b d]])
qed

subsection \<open>Panics of the renamer (C9)\<close>

text \<open>
  Claim C9. \<open>changePackage\<close> panics with an index out of range exactly when the first
  line of its input that starts with \<open>package\<close> holds no space character: the line is
  split on the single space, so a line \<open>package\<close> alone or a package clause written with
  a tab gives one part only, and the assignment to \<open>parts[1]\<close> fails. General white
  space does not count (\<open>strings.Fields\<close> finds two words in the tab-separated line).
  With a non-empty target name \<open>Generics\<close> calls \<open>changePackage\<close> on the cleaned text, and
  the panic is its outcome.
\<close>

theorem changePackage_panics:
  "((changePackage r pkgName = Inl panicIndexOutOfRange) =
      (\<exists>pre l post. scanLines r = pre @ l # post
         \<and> (\<forall>x\<in>set pre. \<not> strings_HasPrefix x ''package'')
         \<and> strings_HasPrefix l ''package'' \<and> CHR '' '' \<notin> set l))
   \<and> (pkgName \<noteq> [] \<and> generateAll parse scan filename src typeSets header = Inr totalOutput
        \<and> changePackage (cleanOutput totalOutput) pkgName = Inl panicIndexOutOfRange \<longrightarrow>
       Generics parse scan process filename outputFilename pkgName src typeSets
         = Inl panicIndexOutOfRange)"
proof (intro conjI impI iffI)
  assume "changePackage r pkgName = Inl panicIndexOutOfRange"
  then show "\<exists>pre l post. scanLines r = pre @ l # post
        \<and> (\<forall>x\<in>set pre. \<not> strings_HasPrefix x ''package'')
        \<and> strings_HasPrefix l ''package'' \<and> CHR '' '' \<notin> set l"
    unfolding changePackage_def by (rule changePackage_loop_fails)
next
  assume "\<exists>pre l post. scanLines r = pre @ l # post
        \<and> (\<forall>x\<in>set pre. \<not> strings_HasPrefix x ''package'')
        \<and> strings_HasPrefix l ''package'' \<and> CHR '' '' \<notin> set l"
  then show "changePackage r pkgName = Inl panicIndexOutOfRange"
    unfolding changePackage_def by (auto simp: changePackage_loop_first)
next
  assume "pkgName \<noteq> [] \<and> generateAll parse scan filename src typeSets header = Inr totalOutput
        \<and> changePackage (cleanOutput totalOutput) pkgName = Inl panicIndexOutOfRange"
  then show "Generics parse scan process filename outputFilename pkgName src typeSets
         = Inl panicIndexOutOfRange"
    by (simp add: Generics_def preNormalized_def)
qed

theorem changePackage_panics_witness:
  "Generics (\<lambda>f s. Inr \<lparr>Decls = []\<rparr>) goScan (\<lambda>f s. Inr s) ''t.go'' ''o.go'' ''main''
     (''package'' @ [CHR 0x09] @ ''p\<newline>'') [[]] = Inl panicIndexOutOfRange
   \<and> strings_Fields (''package'' @ [CHR 0x09] @ ''p'') = [''package'', ''p'']"
proof -
  let ?pre = "[[], [], ''// This file was automatically generated by genny.'',
      ''// Any changes will be lost if this file is regenerated.'',
      ''// see https://github.com/cheekybits/genny'', []]"
  let ?r = "header @ ''package'' @ [CHR 0x09] @ ''p\<newline>''"
  note th = changePackage_panics [where r = ?r and pkgName = "''main''"
      and parse = "\<lambda>f s. Inr \<lparr>Decls = []\<rparr>" and scan = goScan and filename = "''t.go''"
      and src = "''package'' @ [CHR 0x09] @ ''p\<newline>''" and typeSets = "[[]]"
      and totalOutput = ?r and process = "\<lambda>f s. Inr s" and outputFilename = "''o.go''"]
  have "scanLines ?r = ?pre @ (''package'' @ [CHR 0x09] @ ''p'') # []
        \<and> (\<forall>x\<in>set ?pre. \<not> strings_HasPrefix x ''package'')
        \<and> strings_HasPrefix (''package'' @ [CHR 0x09] @ ''p'') ''package''
        \<and> CHR '' '' \<notin> set (''package'' @ [CHR 0x09] @ ''p'')"
    unfolding scanLines_tab by (simp add: strings_HasPrefix_def)
  then have "\<exists>pre l post. scanLines ?r = pre @ l # post
        \<and> (\<forall>x\<in>set pre. \<not> strings_HasPrefix x ''package'')
        \<and> strings_HasPrefix l ''package'' \<and> CHR '' '' \<notin> set l"
    by blast
  with th have p: "changePackage ?r ''main'' = Inl panicIndexOutOfRange" by blast
  have n: "''main'' \<noteq> []" by simp
  from th n generateAll_tab p
  have a: "Generics (\<lambda>f s. Inr \<lparr>Decls = []\<rparr>) goScan (\<lambda>f s. Inr s) ''t.go'' ''o.go'' ''main''
     (''package'' @ [CHR 0x09] @ ''p\<newline>'') [[]] = Inl panicIndexOutOfRange"
    unfolding cleanOutput_tab by blast
  have b: "strings_Fields (''package'' @ [CHR 0x09] @ ''p'') = [''package'', ''p'']"
    by code_simp
  show ?thesis by (rule conjI [OF a b])
qed

subsection \<open>Import lines (C10)\<close>

text \<open>
  Claim C10. In the clean-up loop every line that starts with the import keyword is
  discarded, whatever follows the keyword: no line that the loop keeps starts with it.
  A single-line import statement (not ending in an opening parenthesis) is skipped and
  the loop goes on outside a block; for a line that starts with the keyword and ends
  with the opening parenthesis, that line, the lines of the block and the line that
  ends with the closing parenthesis are all skipped, and the loop goes on after the
  closing line with the kept lines and the package flag as before.
\<close>

theorem import_lines_discarded:
  "(\<forall>k\<in>set (cleanLoop ls packageFound insideImportBlock []).
       \<not> strings_HasPrefix k importKeyword)
   \<and> (strings_HasPrefix l importKeyword \<and> \<not> strings_HasSuffix l openBrace \<longrightarrow>
        cleanLoop (l # post) pf False acc = cleanLoop post pf False acc)
   \<and> (strings_HasPrefix l importKeyword \<and> strings_HasSuffix l openBrace
        \<and> (\<forall>b\<in>set body. \<not> strings_HasSuffix b closeBrace) \<and> strings_HasSuffix c closeBrace \<longrightarrow>
        cleanLoop (l # body @ c # post) pf False acc = cleanLoop post pf False acc)"
proof (intro conjI impI ballI)
  fix k assume "k \<in> set (cleanLoop ls packageFound insideImportBlock [])"
  then obtain x where x: "x \<in> set (kept ls packageFound insideImportBlock)" "k = makeLine x"
    by (auto simp: cleanLoop_kept)
  from x(1) have "\<not> strings_HasPrefix x importKeyword" by (rule kept_no_import)
  with x(2) show "\<not> strings_HasPrefix k importKeyword"
    by (simp add: strings_HasPrefix_def makeLine_prefix keyword_linefeed)
next
  assume "strings_HasPrefix l importKeyword \<and> \<not> strings_HasSuffix l openBrace"
  then show "cleanLoop (l # post) pf False acc = cleanLoop post pf False acc"
    using package_not_import [of l] by auto
next
  assume a: "strings_HasPrefix l importKeyword \<and> strings_HasSuffix l openBrace
        \<and> (\<forall>b\<in>set body. \<not> strings_HasSuffix b closeBrace) \<and> strings_HasSuffix c closeBrace"
  then have "cleanLoop (l # body @ c # post) pf False acc = cleanLoop (body @ c # post) pf True acc"
    using package_not_import [of l] by auto
  with a show "cleanLoop (l # body @ c # post) pf False acc = cleanLoop post pf False acc"
    by (simp add: cleanLoop_inside)
qed

theorem import_lines_discarded_witness:
  "cleanLoop [''import `os`'', ''var x int''] False False []
     = cleanLoop [''var x int''] False False []
   \<and> cleanLoop [''import ('', ''  `fmt`'', '')'', ''var x int''] False False []
     = cleanLoop [''var x int''] False False []
   \<and> filter (\<lambda>k. strings_HasPrefix k importKeyword)
        (cleanLoop [''package p'', ''import ('', ''  `fmt`'', '')'', ''import `os`'',
                    ''var x int''] False False []) = []"
proof -
  have h1: "strings_HasPrefix ''import `os`'' importKeyword
            \<and> \<not> strings_HasSuffix ''import `os`'' openBrace"
    by code_simp
  have h2: "strings_HasPrefix ''import ('' importKeyword \<and> strings_HasSuffix ''import ('' openBrace
        \<and> (\<forall>b\<in>set [''  `fmt`'']. \<not> strings_HasSuffix b closeBrace)
        \<and> strings_HasSuffix '')'' closeBrace"
    by code_simp
  note t1 = import_lines_discarded [where l = "''import `os`''" and post = "[''var x int'']"
      and pf = False and acc = "[]"
      and ls = "[''package p'', ''import ('', ''  `fmt`'', '')'', ''import `os`'', ''var x int'']"
      and packageFound = False and insideImportBlock = False]
  note t2 = import_lines_discarded [where l = "''import (''" and post = "[''var x int'']"
      and body = "[''  `fmt`'']" and c = "'')''" and pf = False and acc = "[]"]
  from t1 h1 have a: "cleanLoop [''import `os`'', ''var x int''] False False []
     = cleanLoop [''var x int''] False False []"
    by blast
  from t2 h2 have b: "cleanLoop (''import ('' # [''  `fmt`''] @ '')'' # [''var x int'']) False False []
     = cleanLoop [''var x int''] False False []"
    by blast
  from t1 have c: "filter (\<lambda>k. strings_HasPrefix k importKeyword)
        (cleanLoop [''package p'', ''import ('', ''  `fmt`'', '')'', ''import `os`'',
                    ''var x int''] False False []) = []"
    unfolding filter_empty_conv by blast
  from b have b': "cleanLoop [''import ('', ''  `fmt`'', '')'', ''var x int''] False False []
     = cleanLoop [''var x int''] False False []"
    by simp
  show ?thesis by (rule conjI [OF a conjI [OF b' c]])
qed

end
